theory Spec2Isabelle
  imports Main "HOL-Library.Multiset" "HOL-Library.AList" "HOL-Library.Option_ord"
begin

section \<open>Schema\<close>

text \<open>
  The relational schema of the migrations: enumerated types as datatypes, one record per
  table row, a nullable column as an \<open>option\<close>. Identifiers (UUID columns) are strings.
  The \<open>created_at\<close>/\<open>updated_at\<close> columns are kept only for messages, the one table
  whose timestamps the client computes with.
\<close>

type_synonym uuid = string

datatype app_role = User | Admin
datatype item_type = Lost | Found
datatype item_status = Active | Claimed | Archived
datatype claim_status = Pending | Approved | Rejected

text \<open>\<open>public.profiles\<close>: \<open>username TEXT UNIQUE NOT NULL\<close>, \<open>role app_role DEFAULT 'user'\<close>.\<close>

record profile =
  p_id :: uuid
  username :: string
  full_name :: "string option"
  role :: "app_role option"
  avatar_url :: "string option"

text \<open>
  A row of \<open>auth.users\<close> as the signup trigger reads it: \<open>NEW.id\<close>, \<open>NEW.email\<close> and
  the text members of \<open>NEW.raw_user_meta_data\<close> (\<open>->>\<close> yields NULL for a missing key).
\<close>

record auth_user =
  u_id :: uuid
  email :: "string option"
  raw_user_meta_data :: "string \<rightharpoonup> string"

datatype pg_error =
    not_null_violation
  | unique_violation
  | foreign_key_violation
  | numeric_value_out_of_range
  | insufficient_privilege

section \<open>Signup trigger: \<open>handle_new_user\<close>\<close>

subsection \<open>SQL string functions\<close>

text \<open>\<open>trim(s)\<close>: strips spaces (only spaces) from both ends.\<close>

definition trim :: "string \<Rightarrow> string" where
  "trim s = rev (dropWhile (\<lambda>c. c = CHR '' '') (rev (dropWhile (\<lambda>c. c = CHR '' '') s)))"

definition NULLIF :: "string option \<Rightarrow> string \<Rightarrow> string option" where
  "NULLIF x y = (case x of None \<Rightarrow> None | Some s \<Rightarrow> if s = y then None else Some s)"

definition COALESCE :: "'a option \<Rightarrow> 'a option \<Rightarrow> 'a option" where
  "COALESCE x y = (case x of Some v \<Rightarrow> Some v | None \<Rightarrow> y)"

text \<open>\<open>split_part(s, '@', 1)\<close>: the text before the first \<open>@\<close>, all of \<open>s\<close> when there is none.\<close>

definition split_part_1 :: "string \<Rightarrow> char \<Rightarrow> string" where
  "split_part_1 s d = takeWhile (\<lambda>c. c \<noteq> d) s"

text \<open>
  \<open>lower(s)\<close> is a function of the database server, not of the repository, and what it
  does to a letter outside ASCII depends on the locale of the database (under a UTF-8
  locale U+212A, the Kelvin sign, becomes \<open>k\<close>; under the C locale it stays). The
  trigger's model therefore takes it as a parameter, written \<open>lower\<close>, of this type.
\<close>

type_synonym lower_fn = "string \<Rightarrow> string"

text \<open>
  \<open>regexp_replace(s, '[^a-z0-9_]', '', 'g')\<close>. A text is the list of the bytes of its UTF-8
  encoding; a character outside ASCII is a run of bytes none of which is in \<open>[a-z0-9_]\<close>, so
  it goes as a whole, and what is left is ASCII, of which \<open>substring\<close> takes 20 characters.
\<close>

definition handle_char :: "char \<Rightarrow> bool" where
  "handle_char c \<longleftrightarrow> c \<in> set ''abcdefghijklmnopqrstuvwxyz0123456789_''"

definition strip_non_handle :: "string \<Rightarrow> string" where
  "strip_non_handle s = filter handle_char s"

text \<open>\<open>substring(s from 1 for 20)\<close>.\<close>

definition substring_1_20 :: "string \<Rightarrow> string" where
  "substring_1_20 s = take 20 s"

text \<open>Integer to text, as \<open>base_username || counter\<close> renders the counter.\<close>

definition digit_char :: "nat \<Rightarrow> char" where
  "digit_char d = char_of (48 + d)"

fun nat_to_text :: "nat \<Rightarrow> string" where
  "nat_to_text n = (if n < 10 then [digit_char n] else nat_to_text (n div 10) @ [digit_char (n mod 10)])"

declare nat_to_text.simps [simp del]

definition int_to_text :: "int \<Rightarrow> string" where
  "int_to_text i = (if i < 0 then CHR ''-'' # nat_to_text (nat (- i)) else nat_to_text (nat i))"

subsection \<open>The trigger function\<close>

text \<open>
  Lines 135-142: the base username (\<open>sanitize\<close> is lines 141-142). NULL (\<open>None\<close>)
  when the metadata has no non-blank \<open>username\<close> and the email is NULL.
\<close>

definition sanitize :: "lower_fn \<Rightarrow> string \<Rightarrow> string" where
  "sanitize lower s = substring_1_20 (strip_non_handle (lower s))"

definition base_username :: "lower_fn \<Rightarrow> auth_user \<Rightarrow> string option" where
  "base_username lower new =
     map_option (sanitize lower)
       (COALESCE (NULLIF (map_option trim (raw_user_meta_data new ''username'')) '''')
                 (map_option (\<lambda>e. split_part_1 e CHR ''@'') (email new)))"

text \<open>
  Lines 145-149: the \<open>WHILE EXISTS (SELECT 1 FROM profiles WHERE username = final_username)\<close>
  loop. \<open>counter\<close> is a PL/pgSQL \<open>INTEGER\<close>: \<open>counter + 1\<close> past 2147483647 raises
  "integer out of range" instead of wrapping.
\<close>

function unique_username_loop ::
  "profile list \<Rightarrow> string \<Rightarrow> string \<Rightarrow> int \<Rightarrow> pg_error + string" where
  "unique_username_loop ps base final counter =
     (if final \<in> set (map username ps) then
        (if counter + 1 > 2147483647 then Inl numeric_value_out_of_range
         else unique_username_loop ps base (base @ int_to_text counter) (counter + 1))
      else Inr final)"
  by pat_completeness auto
termination
  by (relation "measure (\<lambda>(ps, base, final, counter). nat (2147483647 - counter))") auto

declare unique_username_loop.simps [simp del]

definition unique_username :: "profile list \<Rightarrow> string \<Rightarrow> pg_error + string" where
  "unique_username ps base = unique_username_loop ps base base 1"

text \<open>
  Lines 152-157: the insert into \<open>profiles\<close>, with the table's constraints: the primary
  key \<open>id\<close>, \<open>username UNIQUE NOT NULL\<close>; \<open>role\<close> takes its default. The function is
  \<open>SECURITY DEFINER\<close>, so no row-level policy applies.
\<close>

definition insert_profile :: "profile list \<Rightarrow> uuid \<Rightarrow> string option \<Rightarrow> string option \<Rightarrow> pg_error + profile list" where
  "insert_profile ps pid uname fname =
     (case uname of
        None \<Rightarrow> Inl not_null_violation
      | Some un \<Rightarrow>
          if pid \<in> set (map p_id ps) \<or> un \<in> set (map username ps) then Inl unique_violation
          else Inr (ps @ [\<lparr>p_id = pid, username = un, full_name = fname,
                           role = Some User, avatar_url = None\<rparr>]))"

definition handle_new_user :: "lower_fn \<Rightarrow> profile list \<Rightarrow> auth_user \<Rightarrow> pg_error + profile list" where
  "handle_new_user lower ps new =
     (case base_username lower new of
        None \<Rightarrow> insert_profile ps (u_id new) None
                  (COALESCE (NULLIF (map_option trim (raw_user_meta_data new ''full_name'')) '''') None)
      | Some base \<Rightarrow>
          (case unique_username ps base of
             Inl e \<Rightarrow> Inl e
           | Inr final_username \<Rightarrow>
               insert_profile ps (u_id new) (Some final_username)
                 (COALESCE (NULLIF (map_option trim (raw_user_meta_data new ''full_name'')) '''')
                           (Some final_username))))"

section \<open>Tables and the database state\<close>

text \<open>
  Rows of \<open>public.items\<close>, \<open>public.claims\<close>, \<open>public.messages\<close> and
  \<open>public.notifications\<close>. A column with a default but no \<open>NOT NULL\<close> (\<open>status\<close>,
  \<open>tags\<close>, \<open>read\<close>, \<open>created_at\<close>) can hold NULL, so it is an option. A generated key
  (\<open>gen_random_uuid()\<close>) is part of the row a statement inserts; notifications are never
  addressed by key here, so their \<open>id\<close> is left out. \<open>m_created_at\<close> is the \<open>timestamptz\<close>
  in microseconds since the epoch.
\<close>

record item =
  i_id :: uuid
  i_user_id :: uuid
  i_title :: string
  i_description :: string
  i_image_url :: "string option"
  i_category :: string
  i_tags :: "string list option"
  i_location :: string
  i_status :: "item_status option"
  i_type :: item_type

record claim =
  c_id :: uuid
  c_item_id :: uuid
  c_claimant_id :: uuid
  c_message :: string
  c_status :: "claim_status option"

record message =
  m_id :: uuid
  m_sender_id :: uuid
  m_recipient_id :: uuid
  m_item_id :: uuid
  m_message :: string
  m_read :: "bool option"
  m_created_at :: "int option"

record notification =
  n_user_id :: uuid
  n_type :: string
  n_title :: string
  n_message :: string
  n_read :: "bool option"

text \<open>The state: the keys of \<open>auth.users\<close> and the five public tables, rows in insertion order.\<close>

record db =
  users :: "uuid list"
  profiles :: "profile list"
  items :: "item list"
  claims :: "claim list"
  messages :: "message list"
  notifications :: "notification list"

definition empty_db :: db where
  "empty_db = \<lparr>users = [], profiles = [], items = [], claims = [], messages = [], notifications = []\<rparr>"

text \<open>
  The identity a request runs under: \<open>auth.role()\<close> and \<open>auth.uid()\<close> (NULL for a request
  without a signed-in user).
\<close>

record caller =
  auth_role :: string
  auth_uid :: "uuid option"

text \<open>The client's requests for a signed-in \<open>user\<close>.\<close>

definition signed_in :: "uuid \<Rightarrow> caller" where
  "signed_in uid = \<lparr>auth_role = ''authenticated'', auth_uid = Some uid\<rparr>"

text \<open>
  Account creation: the row enters \<open>auth.users\<close> and the trigger \<open>on_auth_user_created\<close>
  runs \<open>handle_new_user\<close> in the same transaction, so an error of the trigger leaves no account.
\<close>

definition on_auth_user_created :: "lower_fn \<Rightarrow> db \<Rightarrow> auth_user \<Rightarrow> pg_error + db" where
  "on_auth_user_created lower d new =
     (if u_id new \<in> set (users d) then Inl unique_violation
      else case handle_new_user lower (profiles d) new of
             Inl e \<Rightarrow> Inl e
           | Inr ps \<Rightarrow> Inr (d\<lparr>users := users d @ [u_id new], profiles := ps\<rparr>))"

section \<open>Row-level security policies\<close>

text \<open>
  \<open>get_user_role\<close> (\<open>SECURITY DEFINER\<close>): the role in the caller's own profile row, NULL
  when there is none. A comparison with NULL is not true, so a policy \<open>auth.uid() = col\<close>
  reads \<open>auth_uid c = Some col\<close>.
\<close>

definition get_user_role :: "db \<Rightarrow> uuid option \<Rightarrow> app_role option" where
  "get_user_role d user_id =
     (case user_id of
        None \<Rightarrow> None
      | Some u \<Rightarrow> (case find (\<lambda>p. p_id p = u) (profiles d) of None \<Rightarrow> None | Some p \<Rightarrow> role p))"

subsection \<open>Items\<close>

definition anyone_can_view_active_items :: "item \<Rightarrow> bool" where
  "anyone_can_view_active_items r \<longleftrightarrow> i_status r = Some Active"

definition users_can_insert_own_items :: "caller \<Rightarrow> item \<Rightarrow> bool" where
  "users_can_insert_own_items c r \<longleftrightarrow> auth_uid c = Some (i_user_id r)"

definition users_can_update_own_items :: "caller \<Rightarrow> item \<Rightarrow> bool" where
  "users_can_update_own_items c r \<longleftrightarrow> auth_uid c = Some (i_user_id r)"

definition admins_can_manage_all_items :: "db \<Rightarrow> caller \<Rightarrow> bool" where
  "admins_can_manage_all_items d c \<longleftrightarrow> get_user_role d (auth_uid c) = Some Admin"

text \<open>
  The policies of one command are permissive, so they are joined by OR; the \<open>FOR ALL\<close>
  policy takes part in every command, and a policy without \<open>WITH CHECK\<close> checks new rows
  with its \<open>USING\<close> expression.
\<close>

definition items_select_policy :: "db \<Rightarrow> caller \<Rightarrow> item \<Rightarrow> bool" where
  "items_select_policy d c r \<longleftrightarrow> anyone_can_view_active_items r \<or> admins_can_manage_all_items d c"

definition items_insert_policy :: "db \<Rightarrow> caller \<Rightarrow> item \<Rightarrow> bool" where
  "items_insert_policy d c r \<longleftrightarrow> users_can_insert_own_items c r \<or> admins_can_manage_all_items d c"

definition items_update_policy :: "db \<Rightarrow> caller \<Rightarrow> item \<Rightarrow> bool" where
  "items_update_policy d c r \<longleftrightarrow> users_can_update_own_items c r \<or> admins_can_manage_all_items d c"

definition items_delete_policy :: "db \<Rightarrow> caller \<Rightarrow> item \<Rightarrow> bool" where
  "items_delete_policy d c r \<longleftrightarrow> admins_can_manage_all_items d c"

definition select_items :: "db \<Rightarrow> caller \<Rightarrow> item list" where
  "select_items d c = filter (items_select_policy d c) (items d)"

subsection \<open>Claims\<close>

text \<open>
  The \<open>EXISTS (SELECT 1 FROM public.items ...)\<close> of the two claim policies is a query of the
  caller, so it sees the item rows the caller may select.
\<close>

definition users_can_view_claims_for_their_items :: "db \<Rightarrow> caller \<Rightarrow> claim \<Rightarrow> bool" where
  "users_can_view_claims_for_their_items d c r \<longleftrightarrow>
     (\<exists>i \<in> set (select_items d c). i_id i = c_item_id r \<and> auth_uid c = Some (i_user_id i))
     \<or> auth_uid c = Some (c_claimant_id r)"

definition users_can_create_claims :: "caller \<Rightarrow> claim \<Rightarrow> bool" where
  "users_can_create_claims c r \<longleftrightarrow> auth_uid c = Some (c_claimant_id r)"

definition item_owners_can_update_claims :: "db \<Rightarrow> caller \<Rightarrow> claim \<Rightarrow> bool" where
  "item_owners_can_update_claims d c r \<longleftrightarrow>
     (\<exists>i \<in> set (select_items d c). i_id i = c_item_id r \<and> auth_uid c = Some (i_user_id i))"

definition admins_can_manage_all_claims :: "db \<Rightarrow> caller \<Rightarrow> bool" where
  "admins_can_manage_all_claims d c \<longleftrightarrow> get_user_role d (auth_uid c) = Some Admin"

definition claims_select_policy :: "db \<Rightarrow> caller \<Rightarrow> claim \<Rightarrow> bool" where
  "claims_select_policy d c r \<longleftrightarrow>
     users_can_view_claims_for_their_items d c r \<or> admins_can_manage_all_claims d c"

definition claims_insert_policy :: "db \<Rightarrow> caller \<Rightarrow> claim \<Rightarrow> bool" where
  "claims_insert_policy d c r \<longleftrightarrow> users_can_create_claims c r \<or> admins_can_manage_all_claims d c"

definition claims_update_policy :: "db \<Rightarrow> caller \<Rightarrow> claim \<Rightarrow> bool" where
  "claims_update_policy d c r \<longleftrightarrow>
     item_owners_can_update_claims d c r \<or> admins_can_manage_all_claims d c"

definition claims_delete_policy :: "db \<Rightarrow> caller \<Rightarrow> claim \<Rightarrow> bool" where
  "claims_delete_policy d c r \<longleftrightarrow> admins_can_manage_all_claims d c"

definition select_claims :: "db \<Rightarrow> caller \<Rightarrow> claim list" where
  "select_claims d c = filter (claims_select_policy d c) (claims d)"

subsection \<open>Messages, notifications, profiles\<close>

definition users_can_view_messages_they_sent_or_received :: "caller \<Rightarrow> message \<Rightarrow> bool" where
  "users_can_view_messages_they_sent_or_received c r \<longleftrightarrow>
     auth_uid c = Some (m_sender_id r) \<or> auth_uid c = Some (m_recipient_id r)"

definition users_can_send_messages :: "caller \<Rightarrow> message \<Rightarrow> bool" where
  "users_can_send_messages c r \<longleftrightarrow> auth_uid c = Some (m_sender_id r)"

definition select_messages :: "db \<Rightarrow> caller \<Rightarrow> message list" where
  "select_messages d c = filter (users_can_view_messages_they_sent_or_received c) (messages d)"

definition system_can_insert_notifications :: "caller \<Rightarrow> notification \<Rightarrow> bool" where
  "system_can_insert_notifications c r \<longleftrightarrow> True"

definition users_can_view_all_profiles :: "caller \<Rightarrow> profile \<Rightarrow> bool" where
  "users_can_view_all_profiles c r \<longleftrightarrow> True"

definition select_profiles :: "db \<Rightarrow> caller \<Rightarrow> profile list" where
  "select_profiles d c = filter (users_can_view_all_profiles c) (profiles d)"

subsection \<open>Storage objects\<close>

text \<open>A row of \<open>storage.objects\<close> as the policies read it.\<close>

record storage_object =
  bucket_id :: string
  o_name :: string

text \<open>
  Modelled from the spec: \<open>storage.foldername\<close> is a function of the storage service and
  not in the repository. The specification calls \<open>(storage.foldername(name))[1]\<close> the
  path prefix of an upload path \<open>{account_id}/{timestamp}.{ext}\<close>: the path is split at
  \<open>/\<close> and its last part (the file name) dropped, so the first element is the first
  folder, NULL for a path without a folder.
\<close>

fun string_to_array :: "string \<Rightarrow> char \<Rightarrow> string list" where
  "string_to_array [] d = [[]]"
| "string_to_array (x # xs) d =
     (if x = d then [] # string_to_array xs d
      else (case string_to_array xs d of [] \<Rightarrow> [[x]] | p # ps \<Rightarrow> (x # p) # ps))"

definition foldername :: "string \<Rightarrow> string list" where
  "foldername name = butlast (string_to_array name CHR ''/'')"

definition first_folder :: "string \<Rightarrow> string option" where
  "first_folder name = (case foldername name of [] \<Rightarrow> None | f # fs \<Rightarrow> Some f)"

text \<open>\<open>auth.uid()::text = (storage.foldername(name))[1]\<close>: not true when either side is NULL.\<close>

definition uid_is_first_folder :: "caller \<Rightarrow> storage_object \<Rightarrow> bool" where
  "uid_is_first_folder c ob \<longleftrightarrow>
     (case auth_uid c of None \<Rightarrow> False | Some u \<Rightarrow> first_folder (o_name ob) = Some u)"

definition anyone_can_view_item_images :: "storage_object \<Rightarrow> bool" where
  "anyone_can_view_item_images ob \<longleftrightarrow> bucket_id ob = ''item-images''"

definition users_can_upload_item_images :: "caller \<Rightarrow> storage_object \<Rightarrow> bool" where
  "users_can_upload_item_images c ob \<longleftrightarrow>
     bucket_id ob = ''item-images'' \<and> auth_role c = ''authenticated'' \<and> uid_is_first_folder c ob"

definition users_can_update_own_item_images :: "caller \<Rightarrow> storage_object \<Rightarrow> bool" where
  "users_can_update_own_item_images c ob \<longleftrightarrow>
     bucket_id ob = ''item-images'' \<and> uid_is_first_folder c ob"

definition users_can_delete_own_item_images :: "caller \<Rightarrow> storage_object \<Rightarrow> bool" where
  "users_can_delete_own_item_images c ob \<longleftrightarrow>
     bucket_id ob = ''item-images'' \<and> uid_is_first_folder c ob"

definition anyone_can_view_profile_avatars :: "storage_object \<Rightarrow> bool" where
  "anyone_can_view_profile_avatars ob \<longleftrightarrow> bucket_id ob = ''profile-avatars''"

definition users_can_upload_profile_avatars :: "caller \<Rightarrow> storage_object \<Rightarrow> bool" where
  "users_can_upload_profile_avatars c ob \<longleftrightarrow>
     bucket_id ob = ''profile-avatars'' \<and> auth_role c = ''authenticated''"

definition users_can_update_their_own_profile_avatars :: "caller \<Rightarrow> storage_object \<Rightarrow> bool" where
  "users_can_update_their_own_profile_avatars c ob \<longleftrightarrow>
     bucket_id ob = ''profile-avatars'' \<and> uid_is_first_folder c ob"

definition users_can_delete_their_own_profile_avatars :: "caller \<Rightarrow> storage_object \<Rightarrow> bool" where
  "users_can_delete_their_own_profile_avatars c ob \<longleftrightarrow>
     bucket_id ob = ''profile-avatars'' \<and> uid_is_first_folder c ob"

text \<open>What \<open>storage.objects\<close> permits per command: the policies of that command, joined by OR.\<close>

definition objects_select_policy :: "caller \<Rightarrow> storage_object \<Rightarrow> bool" where
  "objects_select_policy c ob \<longleftrightarrow> anyone_can_view_item_images ob \<or> anyone_can_view_profile_avatars ob"

definition objects_insert_policy :: "caller \<Rightarrow> storage_object \<Rightarrow> bool" where
  "objects_insert_policy c ob \<longleftrightarrow>
     users_can_upload_item_images c ob \<or> users_can_upload_profile_avatars c ob"

definition objects_update_policy :: "caller \<Rightarrow> storage_object \<Rightarrow> bool" where
  "objects_update_policy c ob \<longleftrightarrow>
     users_can_update_own_item_images c ob \<or> users_can_update_their_own_profile_avatars c ob"

definition objects_delete_policy :: "caller \<Rightarrow> storage_object \<Rightarrow> bool" where
  "objects_delete_policy c ob \<longleftrightarrow>
     users_can_delete_own_item_images c ob \<or> users_can_delete_their_own_profile_avatars c ob"

section \<open>Statements\<close>

text \<open>
  One function per statement the REST interface issues for a caller. A statement that
  raises leaves the state as it was (\<open>Inl\<close>); a row the policies hide from the caller is not
  touched and raises nothing. An \<open>UPDATE\<close> or \<open>DELETE\<close> with a filter reads the table, so its
  target rows, and the rows an \<open>UPDATE\<close> writes, must also pass the \<open>SELECT\<close> policies.
  Foreign keys are \<open>ON DELETE CASCADE\<close>.
\<close>

subsection \<open>Items\<close>

text \<open>\<open>returning\<close>: the request asks for the inserted row back (\<open>.insert(...).select()\<close>).\<close>

definition insert_item :: "db \<Rightarrow> caller \<Rightarrow> bool \<Rightarrow> item \<Rightarrow> pg_error + db" where
  "insert_item d c returning r =
     (if \<not> items_insert_policy d c r \<or> (returning \<and> \<not> items_select_policy d c r)
        then Inl insufficient_privilege
      else if i_id r \<in> set (map i_id (items d)) then Inl unique_violation
      else if i_user_id r \<notin> set (users d) then Inl foreign_key_violation
      else Inr (d\<lparr>items := items d @ [r]\<rparr>))"

definition update_items :: "db \<Rightarrow> caller \<Rightarrow> (item \<Rightarrow> bool) \<Rightarrow> (item \<Rightarrow> item) \<Rightarrow> pg_error + db" where
  "update_items d c wh upd =
     (let hit = (\<lambda>r. wh r \<and> items_select_policy d c r \<and> items_update_policy d c r);
          new = map (\<lambda>r. if hit r then upd r else r) (items d)
      in if \<exists>r \<in> set (items d). hit r \<and>
              \<not> (items_update_policy d c (upd r) \<and> items_select_policy d c (upd r))
           then Inl insufficient_privilege
         else if \<not> distinct (map i_id new) then Inl unique_violation
         else if (\<exists>r \<in> set new. i_user_id r \<notin> set (users d))
               \<or> (\<exists>cl \<in> set (claims d). c_item_id cl \<notin> set (map i_id new))
               \<or> (\<exists>m \<in> set (messages d). m_item_id m \<notin> set (map i_id new))
           then Inl foreign_key_violation
         else Inr (d\<lparr>items := new\<rparr>))"

definition delete_items :: "db \<Rightarrow> caller \<Rightarrow> (item \<Rightarrow> bool) \<Rightarrow> pg_error + db" where
  "delete_items d c wh =
     (let hit = (\<lambda>r. wh r \<and> items_select_policy d c r \<and> items_delete_policy d c r);
          gone = map i_id (filter hit (items d))
      in Inr (d\<lparr>items := filter (\<lambda>r. \<not> hit r) (items d),
                claims := filter (\<lambda>cl. c_item_id cl \<notin> set gone) (claims d),
                messages := filter (\<lambda>m. m_item_id m \<notin> set gone) (messages d)\<rparr>))"

subsection \<open>Claims\<close>

text \<open>\<open>UNIQUE(item_id, claimant_id)\<close>.\<close>

definition claim_pair :: "claim \<Rightarrow> uuid \<times> uuid" where
  "claim_pair r = (c_item_id r, c_claimant_id r)"

definition insert_claim :: "db \<Rightarrow> caller \<Rightarrow> claim \<Rightarrow> pg_error + db" where
  "insert_claim d c r =
     (if \<not> claims_insert_policy d c r then Inl insufficient_privilege
      else if c_id r \<in> set (map c_id (claims d)) \<or> claim_pair r \<in> set (map claim_pair (claims d))
        then Inl unique_violation
      else if c_item_id r \<notin> set (map i_id (items d)) \<or> c_claimant_id r \<notin> set (users d)
        then Inl foreign_key_violation
      else Inr (d\<lparr>claims := claims d @ [r]\<rparr>))"

definition update_claims :: "db \<Rightarrow> caller \<Rightarrow> (claim \<Rightarrow> bool) \<Rightarrow> (claim \<Rightarrow> claim) \<Rightarrow> pg_error + db" where
  "update_claims d c wh upd =
     (let hit = (\<lambda>r. wh r \<and> claims_select_policy d c r \<and> claims_update_policy d c r);
          new = map (\<lambda>r. if hit r then upd r else r) (claims d)
      in if \<exists>r \<in> set (claims d). hit r \<and>
              \<not> (claims_update_policy d c (upd r) \<and> claims_select_policy d c (upd r))
           then Inl insufficient_privilege
         else if \<not> distinct (map c_id new) \<or> \<not> distinct (map claim_pair new)
           then Inl unique_violation
         else if \<exists>r \<in> set new. c_item_id r \<notin> set (map i_id (items d)) \<or> c_claimant_id r \<notin> set (users d)
           then Inl foreign_key_violation
         else Inr (d\<lparr>claims := new\<rparr>))"

definition delete_claims :: "db \<Rightarrow> caller \<Rightarrow> (claim \<Rightarrow> bool) \<Rightarrow> pg_error + db" where
  "delete_claims d c wh =
     (let hit = (\<lambda>r. wh r \<and> claims_select_policy d c r \<and> claims_delete_policy d c r)
      in Inr (d\<lparr>claims := filter (\<lambda>r. \<not> hit r) (claims d)\<rparr>))"

subsection \<open>Notifications\<close>

text \<open>The constraint of the table: \<open>user_id\<close> references \<open>auth.users\<close>.\<close>

definition notifications_add :: "db \<Rightarrow> notification \<Rightarrow> pg_error + db" where
  "notifications_add d r =
     (if n_user_id r \<notin> set (users d) then Inl foreign_key_violation
      else Inr (d\<lparr>notifications := notifications d @ [r]\<rparr>))"

definition insert_notification :: "db \<Rightarrow> caller \<Rightarrow> notification \<Rightarrow> pg_error + db" where
  "insert_notification d c r =
     (if \<not> system_can_insert_notifications c r then Inl insufficient_privilege
      else notifications_add d r)"

subsection \<open>Messages and the trigger \<open>on_message_created\<close>\<close>

text \<open>
  \<open>create_message_notification\<close> as the later migration replaces it (\<open>CREATE OR REPLACE\<close>):
  it looks the item's title up and inserts one notification for \<open>NEW.recipient_id\<close>. It is
  \<open>SECURITY DEFINER\<close>: no policy applies to its query or its insert.
\<close>

definition create_message_notification :: "db \<Rightarrow> message \<Rightarrow> pg_error + db" where
  "create_message_notification d new =
     (let item_title = map_option i_title (find (\<lambda>i. i_id i = m_item_id new) (items d))
      in notifications_add d
           \<lparr>n_user_id = m_recipient_id new,
            n_type = ''message'',
            n_title = ''New Message'',
            n_message =
              (case item_title of
                 Some t \<Rightarrow> ''You have received a new message about \"'' @ t @ ''\"''
               | None \<Rightarrow> ''You have received a new message about an item''),
            n_read = Some False\<rparr>)"

text \<open>
  An insert into \<open>messages\<close>; the trigger is \<open>AFTER INSERT ... FOR EACH ROW\<close> and runs inside
  the statement, so its error is the statement's.
\<close>

definition insert_message :: "db \<Rightarrow> caller \<Rightarrow> message \<Rightarrow> pg_error + db" where
  "insert_message d c r =
     (if \<not> users_can_send_messages c r then Inl insufficient_privilege
      else if m_id r \<in> set (map m_id (messages d)) then Inl unique_violation
      else if m_sender_id r \<notin> set (users d) \<or> m_recipient_id r \<notin> set (users d)
              \<or> m_item_id r \<notin> set (map i_id (items d))
        then Inl foreign_key_violation
      else create_message_notification (d\<lparr>messages := messages d @ [r]\<rparr>) r)"

subsection \<open>Sequences of requests\<close>

text \<open>
  The requests a client can send, and their effect on the state; a request that raises
  leaves the state as it was. \<open>lower\<close> is the database's, the same for a whole run.
\<close>

datatype request =
    SignUp auth_user
  | InsertItem caller bool item
  | UpdateItems caller "item \<Rightarrow> bool" "item \<Rightarrow> item"
  | DeleteItems caller "item \<Rightarrow> bool"
  | InsertClaim caller claim
  | UpdateClaims caller "claim \<Rightarrow> bool" "claim \<Rightarrow> claim"
  | DeleteClaims caller "claim \<Rightarrow> bool"
  | InsertMessage caller message
  | InsertNotification caller notification

fun perform :: "lower_fn \<Rightarrow> db \<Rightarrow> request \<Rightarrow> pg_error + db" where
  "perform lower d (SignUp new) = on_auth_user_created lower d new"
| "perform lower d (InsertItem c returning r) = insert_item d c returning r"
| "perform lower d (UpdateItems c wh upd) = update_items d c wh upd"
| "perform lower d (DeleteItems c wh) = delete_items d c wh"
| "perform lower d (InsertClaim c r) = insert_claim d c r"
| "perform lower d (UpdateClaims c wh upd) = update_claims d c wh upd"
| "perform lower d (DeleteClaims c wh) = delete_claims d c wh"
| "perform lower d (InsertMessage c r) = insert_message d c r"
| "perform lower d (InsertNotification c r) = insert_notification d c r"

definition exec :: "lower_fn \<Rightarrow> db \<Rightarrow> request \<Rightarrow> db" where
  "exec lower d rq = (case perform lower d rq of Inl e \<Rightarrow> d | Inr d' \<Rightarrow> d')"

definition run :: "lower_fn \<Rightarrow> db \<Rightarrow> request list \<Rightarrow> db" where
  "run lower d rqs = foldl (exec lower) d rqs"

section \<open>Client functions\<close>

text \<open>
  The client's functions take the database state and return the new one together with
  what they show. Requests are answered from the state: a transport failure is not part
  of the model.
\<close>

record toast =
  t_title :: string
  t_description :: string

text \<open>\<open>.single()\<close>: the row when the result has exactly one, else no data.\<close>

definition single :: "'a list \<Rightarrow> 'a option" where
  "single rows = (case rows of [r] \<Rightarrow> Some r | _ \<Rightarrow> None)"

subsection \<open>\<open>createClaim\<close> (the item list)\<close>

text \<open>
  \<open>user\<close> is the signed-in user if any, \<open>prompted\<close> what \<open>prompt(...)\<close> returns (\<open>None\<close>
  when it is dismissed) and \<open>new_id\<close> the key the insert generates.
\<close>

text \<open>The query for an existing claim of the user on the item, and the row the insert sends.\<close>

definition own_claims_on :: "db \<Rightarrow> uuid \<Rightarrow> uuid \<Rightarrow> claim list" where
  "own_claims_on d uid itemId =
     filter (\<lambda>r. c_item_id r = itemId \<and> c_claimant_id r = uid) (select_claims d (signed_in uid))"

definition new_claim :: "uuid \<Rightarrow> uuid \<Rightarrow> uuid \<Rightarrow> string \<Rightarrow> claim" where
  "new_claim new_id itemId uid message =
     \<lparr>c_id = new_id, c_item_id = itemId, c_claimant_id = uid, c_message = message,
      c_status = Some Pending\<rparr>"

text \<open>
  The notification for the item's owner: sent when the item's row was read and has an
  owner; the request's outcome is not looked at.
\<close>

definition notify_owner :: "db \<Rightarrow> uuid \<Rightarrow> item option \<Rightarrow> db" where
  "notify_owner d1 uid itemData =
     (case itemData of
        None \<Rightarrow> d1
      | Some i \<Rightarrow>
          if i_user_id i = [] then d1
          else (case insert_notification d1 (signed_in uid)
                       \<lparr>n_user_id = i_user_id i,
                        n_type = ''claim'',
                        n_title = ''New Claim Received'',
                        n_message = ''Someone has claimed your item \"'' @ i_title i @ ''\"'',
                        n_read = Some False\<rparr> of
                  Inl e \<Rightarrow> d1
                | Inr d' \<Rightarrow> d'))"

definition createClaim ::
  "db \<Rightarrow> uuid option \<Rightarrow> uuid \<Rightarrow> string option \<Rightarrow> uuid \<Rightarrow> db \<times> toast option" where
  "createClaim d user itemId prompted new_id =
     (case user of
        None \<Rightarrow>
          (d, Some \<lparr>t_title = ''Authentication Required'',
                    t_description = ''Please log in to claim an item''\<rparr>)
      | Some uid \<Rightarrow>
          (case single (own_claims_on d uid itemId) of
             Some existingClaim \<Rightarrow>
               (d, Some \<lparr>t_title = ''Already Claimed'',
                         t_description = ''You have already submitted a claim for this item''\<rparr>)
           | None \<Rightarrow>
               (case prompted of
                  None \<Rightarrow> (d, None)
                | Some message \<Rightarrow>
                    if message = [] then (d, None)
                    else
                      (let itemData = single (filter (\<lambda>i. i_id i = itemId) (select_items d (signed_in uid)))
                       in case insert_claim d (signed_in uid) (new_claim new_id itemId uid message) of
                            Inl error \<Rightarrow>
                              (d, Some \<lparr>t_title = ''Error'', t_description = ''Failed to submit claim''\<rparr>)
                          | Inr d1 \<Rightarrow>
                              (notify_owner d1 uid itemData,
                               Some \<lparr>t_title = ''Success'',
                                     t_description = ''Your claim has been submitted successfully''\<rparr>)))))"

subsection \<open>\<open>updateClaimStatus\<close> (the admin console's claim table)\<close>

definition claim_status_text :: "claim_status \<Rightarrow> string" where
  "claim_status_text s = (case s of Pending \<Rightarrow> ''pending'' | Approved \<Rightarrow> ''approved'' | Rejected \<Rightarrow> ''rejected'')"

text \<open>
  \<open>cached\<close> is the component's state \<open>claims\<close>, the rows its last \<open>fetchClaims\<close> loaded. The
  item's own update happens after the claim's, in a second request, and its error is only
  logged.
\<close>

definition updateClaimStatus ::
  "db \<Rightarrow> caller \<Rightarrow> claim list \<Rightarrow> uuid \<Rightarrow> claim_status \<Rightarrow> db \<times> toast" where
  "updateClaimStatus d c cached claimId status =
     (case update_claims d c (\<lambda>r. c_id r = claimId) (\<lambda>r. r\<lparr>c_status := Some status\<rparr>) of
        Inl error \<Rightarrow> (d, \<lparr>t_title = ''Error'', t_description = ''Failed to update claim status''\<rparr>)
      | Inr d1 \<Rightarrow>
          (let d2 =
             (if status = Approved then
                (case find (\<lambda>cl. c_id cl = claimId) cached of
                   None \<Rightarrow> d1
                 | Some cl \<Rightarrow>
                     (case update_items d1 c (\<lambda>i. i_id i = c_item_id cl)
                             (\<lambda>i. i\<lparr>i_status := Some Claimed\<rparr>) of
                        Inl itemError \<Rightarrow> d1
                      | Inr d' \<Rightarrow> d'))
              else d1)
           in (d2, \<lparr>t_title = ''Success'',
                    t_description = ''Claim '' @ claim_status_text status @ '' successfully''\<rparr>)))"

subsection \<open>The application's writes to \<open>items\<close>\<close>

text \<open>
  Every write to \<open>items\<close> in the client: the report form's insert (which sets neither
  \<open>id\<close> nor \<open>status\<close>: both take their defaults), the admin console's status change, its
  edit of title, description and location, its delete, and the deletion of a user's items;
  \<open>updateClaimStatus\<close> issues the status change with \<open>claimed\<close>.
\<close>

datatype item_write =
    ReportItem uuid uuid string string string string item_type "string list" "string option"
  | UpdateItemStatus caller uuid item_status
  | EditItem caller uuid string string string
  | DeleteItem caller uuid
  | DeleteUserItems caller uuid

fun item_write_request :: "item_write \<Rightarrow> request" where
  "item_write_request (ReportItem new_id uid title description category location type tags imageUrl) =
     InsertItem (signed_in uid) True
       \<lparr>i_id = new_id, i_user_id = uid, i_title = title, i_description = description,
        i_image_url = imageUrl, i_category = category, i_tags = Some tags, i_location = location,
        i_status = Some Active, i_type = type\<rparr>"
| "item_write_request (UpdateItemStatus c itemId status) =
     UpdateItems c (\<lambda>i. i_id i = itemId) (\<lambda>i. i\<lparr>i_status := Some status\<rparr>)"
| "item_write_request (EditItem c itemId title description location) =
     UpdateItems c (\<lambda>i. i_id i = itemId)
       (\<lambda>i. i\<lparr>i_title := title, i_description := description, i_location := location\<rparr>)"
| "item_write_request (DeleteItem c itemId) = DeleteItems c (\<lambda>i. i_id i = itemId)"
| "item_write_request (DeleteUserItems c userId) = DeleteItems c (\<lambda>i. i_user_id i = userId)"

text \<open>
  The requests of the application as far as \<open>items\<close> goes: a statement on \<open>items\<close> is one
  of the writes above; a statement on another table is any. \<open>reports_id k\<close> marks an insert
  of a row with key \<open>k\<close>.
\<close>

fun is_items_statement :: "request \<Rightarrow> bool" where
  "is_items_statement (InsertItem c returning r) = True"
| "is_items_statement (UpdateItems c wh upd) = True"
| "is_items_statement (DeleteItems c wh) = True"
| "is_items_statement rq = False"

fun reports_id :: "uuid \<Rightarrow> request \<Rightarrow> bool" where
  "reports_id k (InsertItem c returning r) = (i_id r = k)"
| "reports_id k rq = False"

definition application_request :: "request \<Rightarrow> bool" where
  "application_request rq \<longleftrightarrow> (\<exists>w. rq = item_write_request w) \<or> \<not> is_items_statement rq"

subsection \<open>\<open>fetchConversations\<close>\<close>

text \<open>A message joined with its item and the two profiles, and a conversation bucket.\<close>

record enriched_message =
  msg :: message
  e_items :: "item option"
  sender_profile :: "profile option"
  recipient_profile :: "profile option"

record conversation =
  cv_item_id :: uuid
  item_title :: string
  other_user_id :: uuid
  other_user_username :: string
  other_user_avatar :: "string option"
  cv_messages :: "enriched_message list"
  last_message_date :: "int option"
  unread_count :: nat

text \<open>
  \<open>new Date(t).getTime()\<close>: the milliseconds of a timestamp; the digits of the
  microseconds beyond them are cut off. \<open>new Date(null)\<close> is the epoch, time 0.
\<close>

definition getTime :: "int option \<Rightarrow> int" where
  "getTime t = (case t of None \<Rightarrow> 0 | Some us \<Rightarrow> us div 1000)"

text \<open>\<open>!message.read\<close>: true of \<open>false\<close> and of \<open>null\<close>.\<close>

definition not_read :: "message \<Rightarrow> bool" where
  "not_read m \<longleftrightarrow> m_read m \<noteq> Some True"

text \<open>\<open>x || d\<close> on an optional string: \<open>d\<close> when \<open>x\<close> is undefined or empty.\<close>

definition or_else :: "string option \<Rightarrow> string \<Rightarrow> string" where
  "or_else x d = (case x of None \<Rightarrow> d | Some s \<Rightarrow> if s = [] then d else s)"

definition otherUserId :: "uuid \<Rightarrow> message \<Rightarrow> uuid" where
  "otherUserId uid m = (if m_sender_id m = uid then m_recipient_id m else m_sender_id m)"

definition conversationKey :: "uuid \<Rightarrow> message \<Rightarrow> string" where
  "conversationKey uid m = m_item_id m @ ''-'' @ otherUserId uid m"

definition enrich :: "item list \<Rightarrow> profile list \<Rightarrow> message \<Rightarrow> enriched_message" where
  "enrich itemsData profilesData m =
     \<lparr>msg = m,
      e_items = find (\<lambda>i. i_id i = m_item_id m) itemsData,
      sender_profile = find (\<lambda>p. p_id p = m_sender_id m) profilesData,
      recipient_profile = find (\<lambda>p. p_id p = m_recipient_id m) profilesData\<rparr>"

definition new_conversation :: "uuid \<Rightarrow> enriched_message \<Rightarrow> conversation" where
  "new_conversation uid e =
     (let otherUserProfile = (if m_sender_id (msg e) = uid then recipient_profile e else sender_profile e)
      in \<lparr>cv_item_id = m_item_id (msg e),
          item_title = or_else (map_option i_title (e_items e)) ''Unknown Item'',
          other_user_id = otherUserId uid (msg e),
          other_user_username = or_else (map_option username otherUserProfile) ''Unknown User'',
          other_user_avatar = (case otherUserProfile of None \<Rightarrow> None | Some p \<Rightarrow> avatar_url p),
          cv_messages = [],
          last_message_date = m_created_at (msg e),
          unread_count = 0\<rparr>)"

definition push_message :: "uuid \<Rightarrow> enriched_message \<Rightarrow> conversation \<Rightarrow> conversation" where
  "push_message uid e cv =
     cv\<lparr>cv_messages := cv_messages cv @ [e],
        unread_count := (if m_recipient_id (msg e) = uid \<and> not_read (msg e)
                         then unread_count cv + 1 else unread_count cv)\<rparr>"

text \<open>
  The body of \<open>enrichedMessages.forEach\<close>. \<open>conversationMap\<close> is a \<open>Map\<close>: an association
  list in insertion order, where \<open>set\<close> of a new key appends.
\<close>

definition add_message ::
  "uuid \<Rightarrow> (string \<times> conversation) list \<Rightarrow> enriched_message \<Rightarrow> (string \<times> conversation) list" where
  "add_message uid conversationMap e =
     (let key = conversationKey uid (msg e);
          m1 = (if key \<in> set (map fst conversationMap) then conversationMap
                else AList.update key (new_conversation uid e) conversationMap)
      in AList.map_entry key (push_message uid e) m1)"

definition build_conversations ::
  "uuid \<Rightarrow> item list \<Rightarrow> profile list \<Rightarrow> message list \<Rightarrow> conversation list" where
  "build_conversations uid itemsData profilesData messagesData =
     (let enrichedMessages = map (enrich itemsData profilesData) messagesData;
          conversationMap = foldl (add_message uid) [] enrichedMessages;
          sortedMap = map (\<lambda>(k, cv). (k, cv\<lparr>cv_messages :=
                        sort_key (\<lambda>e. getTime (m_created_at (msg e))) (cv_messages cv)\<rparr>)) conversationMap
      in sort_key (\<lambda>cv. - getTime (last_message_date cv)) (map snd sortedMap))"

text \<open>
  The three queries and the grouping. \<open>.order('created_at', { ascending: false })\<close> is
  \<open>ORDER BY created_at DESC\<close>: the caller's visible messages by descending timestamp, a
  NULL before every timestamp (the key below is the negated timestamp, and \<open>None\<close> is the
  least option). Both \<open>sort\<close> calls of the client are stable sorts by the millisecond
  value.
\<close>

definition desc_key :: "message \<Rightarrow> int option" where
  "desc_key m = map_option uminus (m_created_at m)"

definition fetchConversations :: "db \<Rightarrow> uuid \<Rightarrow> conversation list" where
  "fetchConversations d uid =
     (let messagesData =
            sort_key desc_key
              (filter (\<lambda>m. m_sender_id m = uid \<or> m_recipient_id m = uid)
                 (select_messages d (signed_in uid)))
      in if messagesData = [] then []
         else
           (let itemIds = remdups (map m_item_id messagesData);
                userIds = remdups (map m_sender_id messagesData @ map m_recipient_id messagesData);
                itemsData = filter (\<lambda>i. i_id i \<in> set itemIds) (select_items d (signed_in uid));
                profilesData = filter (\<lambda>p. p_id p \<in> set userIds) (select_profiles d (signed_in uid))
            in build_conversations uid itemsData profilesData messagesData))"

section \<open>Specification-side definitions and example data\<close>

subsection \<open>Handles\<close>

text \<open>
  The specification's wording of the handle: the source is the provided metadata username,
  or else the local part of the email address; the candidates are the sanitized source and
  then that text with the suffixes 1, 2, 3, ...; the display name falls back to the handle.
\<close>

definition spec_handle_source :: "auth_user \<Rightarrow> string option" where
  "spec_handle_source new =
     (case raw_user_meta_data new ''username'' of
        Some u \<Rightarrow> if trim u = [] then map_option (takeWhile (\<lambda>c. c \<noteq> CHR ''@'')) (email new)
                  else Some (trim u)
      | None \<Rightarrow> map_option (takeWhile (\<lambda>c. c \<noteq> CHR ''@'')) (email new))"

definition candidate_handle :: "string \<Rightarrow> int \<Rightarrow> string" where
  "candidate_handle base k = (if k = 0 then base else base @ int_to_text k)"

definition spec_display_name :: "auth_user \<Rightarrow> string \<Rightarrow> string" where
  "spec_display_name new h =
     (case raw_user_meta_data new ''full_name'' of
        Some f \<Rightarrow> if trim f = [] then h else trim f
      | None \<Rightarrow> h)"

text \<open>
  \<open>lower\<close> as a database with the C locale has it: the letters A to Z change, every other
  byte stays. The examples run on such a database.
\<close>

definition lower_C :: lower_fn where
  "lower_C s =
     map (\<lambda>c. case map_of (zip ''ABCDEFGHIJKLMNOPQRSTUVWXYZ'' ''abcdefghijklmnopqrstuvwxyz'') c of
                 Some l \<Rightarrow> l | None \<Rightarrow> c) s"

text \<open>Two registrations whose candidate is \<open>johnsmith\<close>, and the profiles they get.\<close>

definition johnsmith_by_metadata :: auth_user where
  "johnsmith_by_metadata =
     \<lparr>u_id = ''u1'', email = Some ''js@example.com'',
      raw_user_meta_data = [''username'' \<mapsto> ''JohnSmith'']\<rparr>"

definition johnsmith_by_email :: auth_user where
  "johnsmith_by_email =
     \<lparr>u_id = ''u2'', email = Some ''John.Smith@example.org'', raw_user_meta_data = Map.empty\<rparr>"

definition johnsmith_profile :: profile where
  "johnsmith_profile =
     \<lparr>p_id = ''u1'', username = ''johnsmith'', full_name = Some ''johnsmith'',
      role = Some User, avatar_url = None\<rparr>"

definition johnsmith1_profile :: profile where
  "johnsmith1_profile =
     \<lparr>p_id = ''u2'', username = ''johnsmith1'', full_name = Some ''johnsmith1'',
      role = Some User, avatar_url = None\<rparr>"

text \<open>
  A profiles table in which the handle \<open>a\<close> and every \<open>a\<close>\<^emph>\<open>k\<close> for \<^emph>\<open>k\<close> from 1 to
  2147483646 is taken.
\<close>

definition crowded_profiles :: "profile list" where
  "crowded_profiles =
     map (\<lambda>k. \<lparr>p_id = int_to_text k, username = candidate_handle ''a'' k, full_name = None,
               role = Some User, avatar_url = None\<rparr>) [0..2147483646]"

subsection \<open>The schema's constraints\<close>

text \<open>
  The primary keys, the two \<open>UNIQUE\<close> constraints and the foreign keys of the migrations,
  as a predicate on the state.
\<close>

definition constraints_hold :: "db \<Rightarrow> bool" where
  "constraints_hold d \<longleftrightarrow>
     distinct (users d)
     \<and> distinct (map p_id (profiles d)) \<and> distinct (map username (profiles d))
     \<and> (\<forall>p \<in> set (profiles d). p_id p \<in> set (users d))
     \<and> distinct (map i_id (items d))
     \<and> (\<forall>i \<in> set (items d). i_user_id i \<in> set (users d))
     \<and> distinct (map c_id (claims d)) \<and> distinct (map claim_pair (claims d))
     \<and> (\<forall>r \<in> set (claims d). c_item_id r \<in> set (map i_id (items d)) \<and> c_claimant_id r \<in> set (users d))
     \<and> distinct (map m_id (messages d))
     \<and> (\<forall>m \<in> set (messages d). m_sender_id m \<in> set (users d) \<and> m_recipient_id m \<in> set (users d)
                                 \<and> m_item_id m \<in> set (map i_id (items d)))
     \<and> (\<forall>n \<in> set (notifications d). n_user_id n \<in> set (users d))"

subsection \<open>Reading items, as the claim states it\<close>

definition spec_may_read_item :: "db \<Rightarrow> caller \<Rightarrow> item \<Rightarrow> bool" where
  "spec_may_read_item d c r \<longleftrightarrow>
     i_status r = Some Active \<or> auth_uid c = Some (i_user_id r) \<or> get_user_role d (auth_uid c) = Some Admin"

subsection \<open>The message notification, in the specification's words\<close>

definition spec_message_notification :: "db \<Rightarrow> message \<Rightarrow> notification" where
  "spec_message_notification d m =
     \<lparr>n_user_id = m_recipient_id m,
      n_type = ''message'',
      n_title = ''New Message'',
      n_message =
        (if \<exists>i \<in> set (items d). i_id i = m_item_id m
         then ''You have received a new message about \"''
                @ i_title (the (find (\<lambda>i. i_id i = m_item_id m) (items d))) @ ''\"''
         else ''You have received a new message about an item''),
      n_read = Some False\<rparr>"

subsection \<open>An example state\<close>

text \<open>
  Alice has reported a found backpack (active) and a lost umbrella (since claimed), Bob
  has a pending claim on the backpack, Carol is an administrator; three messages about the
  backpack and one about the umbrella.
\<close>

definition alice :: uuid where "alice = ''00000000-0000-0000-0000-00000000000a''"
definition bob :: uuid where "bob = ''00000000-0000-0000-0000-00000000000b''"
definition carol :: uuid where "carol = ''00000000-0000-0000-0000-00000000000c''"
definition backpack_id :: uuid where "backpack_id = ''10000000-0000-0000-0000-000000000001''"
definition umbrella_id :: uuid where "umbrella_id = ''10000000-0000-0000-0000-000000000002''"

definition backpack :: item where
  "backpack =
     \<lparr>i_id = backpack_id, i_user_id = alice, i_title = ''Blue Backpack'',
      i_description = ''Found near the library'', i_image_url = None, i_category = ''Other'',
      i_tags = Some [], i_location = ''Library'', i_status = Some Active, i_type = Found\<rparr>"

definition umbrella :: item where
  "umbrella =
     \<lparr>i_id = umbrella_id, i_user_id = alice, i_title = ''Umbrella'',
      i_description = ''Black, folding'', i_image_url = None, i_category = ''Other'',
      i_tags = Some [], i_location = ''Bus stop'', i_status = Some Claimed, i_type = Lost\<rparr>"

definition bobs_claim :: claim where
  "bobs_claim =
     \<lparr>c_id = ''20000000-0000-0000-0000-000000000001'', c_item_id = backpack_id,
      c_claimant_id = bob, c_message = ''That is mine'', c_status = Some Pending\<rparr>"

definition msg1 :: message where
  "msg1 = \<lparr>m_id = ''30000000-0000-0000-0000-000000000001'', m_sender_id = bob,
           m_recipient_id = alice, m_item_id = backpack_id, m_message = ''Is it blue?'',
           m_read = Some True, m_created_at = Some 1000\<rparr>"

definition msg2 :: message where
  "msg2 = \<lparr>m_id = ''30000000-0000-0000-0000-000000000002'', m_sender_id = alice,
           m_recipient_id = bob, m_item_id = backpack_id, m_message = ''Yes'',
           m_read = Some True, m_created_at = Some 2000\<rparr>"

definition msg3 :: message where
  "msg3 = \<lparr>m_id = ''30000000-0000-0000-0000-000000000003'', m_sender_id = bob,
           m_recipient_id = alice, m_item_id = backpack_id, m_message = ''Then it is mine'',
           m_read = Some False, m_created_at = Some 3000\<rparr>"

definition msg4 :: message where
  "msg4 = \<lparr>m_id = ''30000000-0000-0000-0000-000000000004'', m_sender_id = carol,
           m_recipient_id = alice, m_item_id = umbrella_id, m_message = ''Please collect it'',
           m_read = Some False, m_created_at = Some 2500\<rparr>"

definition example_profiles :: "profile list" where
  "example_profiles =
     [\<lparr>p_id = alice, username = ''alice'', full_name = Some ''Alice'', role = Some User, avatar_url = None\<rparr>,
      \<lparr>p_id = bob, username = ''bob'', full_name = Some ''Bob'', role = Some User, avatar_url = None\<rparr>,
      \<lparr>p_id = carol, username = ''carol'', full_name = Some ''Carol'', role = Some Admin, avatar_url = None\<rparr>]"

definition example_db :: db where
  "example_db =
     \<lparr>users = [alice, bob, carol], profiles = example_profiles, items = [backpack, umbrella],
      claims = [bobs_claim], messages = [msg1, msg2, msg3, msg4], notifications = []\<rparr>"

text \<open>A message Bob sends about the backpack, with the key and timestamp the insert gives it.\<close>

definition bobs_message :: message where
  "bobs_message = \<lparr>m_id = ''30000000-0000-0000-0000-000000000005'', m_sender_id = bob,
           m_recipient_id = alice, m_item_id = backpack_id, m_message = ''Hello'',
           m_read = Some False, m_created_at = Some 4000\<rparr>"

text \<open>
  Uploads as the client names them: an item image under the uploader's folder, an avatar
  as a file at the bucket's top level.
\<close>

definition image_upload :: storage_object where
  "image_upload = \<lparr>bucket_id = ''item-images'', o_name = alice @ ''/1719811419000.png''\<rparr>"

definition avatar_upload :: storage_object where
  "avatar_upload = \<lparr>bucket_id = ''profile-avatars'', o_name = alice @ ''-1719811419000.png''\<rparr>"

text \<open>A run from the empty database: two signups, a report, and two claims of Bob on it.\<close>

definition alice_account :: auth_user where
  "alice_account = \<lparr>u_id = alice, email = Some ''alice@example.com'', raw_user_meta_data = Map.empty\<rparr>"

definition bob_account :: auth_user where
  "bob_account = \<lparr>u_id = bob, email = Some ''bob@example.com'', raw_user_meta_data = Map.empty\<rparr>"

definition bobs_second_claim :: claim where
  "bobs_second_claim =
     \<lparr>c_id = ''20000000-0000-0000-0000-000000000002'', c_item_id = backpack_id,
      c_claimant_id = bob, c_message = ''Mine, really'', c_status = Some Pending\<rparr>"

definition example_requests :: "request list" where
  "example_requests =
     [SignUp alice_account, SignUp bob_account, InsertItem (signed_in alice) True backpack,
      InsertClaim (signed_in bob) bobs_claim, InsertClaim (signed_in bob) bobs_second_claim]"

text \<open>The key of an item that is no longer in the table.\<close>

definition deleted_item_id :: uuid where
  "deleted_item_id = ''10000000-0000-0000-0000-000000000009''"

text \<open>
  Two statements the policies permit to the owner of the backpack, neither of them issued
  by the client: a change of the kind, and an insert with a NULL status.
\<close>

definition relabel_backpack :: request where
  "relabel_backpack = UpdateItems (signed_in alice) (\<lambda>i. i_id i = backpack_id) (\<lambda>i. i\<lparr>i_type := Lost\<rparr>)"

definition statusless_item :: item where
  "statusless_item = backpack\<lparr>i_id := deleted_item_id, i_status := None\<rparr>"

definition insert_statusless :: request where
  "insert_statusless = InsertItem (signed_in alice) False statusless_item"

text \<open>Two writes of the admin console on the backpack.\<close>

definition example_item_writes :: "request list" where
  "example_item_writes =
     [item_write_request (UpdateItemStatus (signed_in carol) backpack_id Archived),
      item_write_request (EditItem (signed_in carol) backpack_id ''Backpack'' ''Blue, with a badge'' ''Library'')]"

subsection \<open>Conversations, stated directly\<close>

text \<open>
  The pair a message belongs to and the pair of a bucket; an unread message of the caller;
  and the bucket of a key as the grouping should leave it: the messages with that key in
  their order of arrival, headed by the fields of the first of them.
\<close>

definition message_pair :: "uuid \<Rightarrow> message \<Rightarrow> uuid \<times> uuid" where
  "message_pair uid m = (m_item_id m, otherUserId uid m)"

definition conversation_pair :: "conversation \<Rightarrow> uuid \<times> uuid" where
  "conversation_pair cv = (cv_item_id cv, other_user_id cv)"

definition unread_by :: "uuid \<Rightarrow> message \<Rightarrow> bool" where
  "unread_by uid m \<longleftrightarrow> m_recipient_id m = uid \<and> m_read m \<noteq> Some True"

definition involves :: "uuid \<Rightarrow> message \<Rightarrow> bool" where
  "involves uid m \<longleftrightarrow> m_sender_id m = uid \<or> m_recipient_id m = uid"

definition bucket_of :: "uuid \<Rightarrow> enriched_message list \<Rightarrow> string \<Rightarrow> conversation" where
  "bucket_of uid es k =
     (let ms = filter (\<lambda>e. conversationKey uid (msg e) = k) es
      in (new_conversation uid (hd ms))
           \<lparr>cv_messages := ms, unread_count := length (filter (\<lambda>e. unread_by uid (msg e)) ms)\<rparr>)"

text \<open>
  The order of \<open>created_at\<close> in the database: a NULL comes after every timestamp.
\<close>

definition nulls_last_le :: "int option \<Rightarrow> int option \<Rightarrow> bool" where
  "nulls_last_le x y =
     (case y of None \<Rightarrow> True | Some t \<Rightarrow> (case x of None \<Rightarrow> False | Some s \<Rightarrow> s \<le> t))"

definition sorted_bucket :: "uuid \<Rightarrow> enriched_message list \<Rightarrow> string \<Rightarrow> conversation" where
  "sorted_bucket uid es k =
     (bucket_of uid es k)
       \<lparr>cv_messages := sort_key (\<lambda>e. getTime (m_created_at (msg e))) (cv_messages (bucket_of uid es k))\<rparr>"

text \<open>
  The three statements of the claim that the grouping is checked against: a bucket in
  ascending order of creation time, the number of its messages to the caller with
  \<open>read = false\<close>, and the time of its most recent message (the greatest of the
  millisecond times of its messages, none of which is negative in the examples).
\<close>

definition spec_ascending :: "conversation \<Rightarrow> bool" where
  "spec_ascending cv \<longleftrightarrow>
     sorted_wrt (\<lambda>a b. nulls_last_le (m_created_at (msg a)) (m_created_at (msg b))) (cv_messages cv)"

definition spec_unread_count :: "uuid \<Rightarrow> conversation \<Rightarrow> nat" where
  "spec_unread_count uid cv =
     length (filter (\<lambda>e. m_recipient_id (msg e) = uid \<and> m_read (msg e) = Some False) (cv_messages cv))"

definition spec_most_recent :: "conversation \<Rightarrow> int" where
  "spec_most_recent cv = fold max (map (\<lambda>e. getTime (m_created_at (msg e))) (cv_messages cv)) 0"

text \<open>
  A state with four messages to Alice: two of Bob about the backpack, written in the same
  millisecond, the later one with a NULL \<open>read\<close>; and two of Carol about the umbrella, one
  of them with a NULL \<open>created_at\<close>.
\<close>

definition reply_a :: message where
  "reply_a = \<lparr>m_id = ''30000000-0000-0000-0000-00000000000a'', m_sender_id = bob,
           m_recipient_id = alice, m_item_id = backpack_id, m_message = ''First'',
           m_read = Some True, m_created_at = Some 5000100\<rparr>"

definition reply_b :: message where
  "reply_b = \<lparr>m_id = ''30000000-0000-0000-0000-00000000000b'', m_sender_id = bob,
           m_recipient_id = alice, m_item_id = backpack_id, m_message = ''Second'',
           m_read = None, m_created_at = Some 5000900\<rparr>"

definition note_c :: message where
  "note_c = \<lparr>m_id = ''30000000-0000-0000-0000-00000000000c'', m_sender_id = carol,
           m_recipient_id = alice, m_item_id = umbrella_id, m_message = ''Undated'',
           m_read = Some True, m_created_at = None\<rparr>"

definition note_d :: message where
  "note_d = \<lparr>m_id = ''30000000-0000-0000-0000-00000000000d'', m_sender_id = carol,
           m_recipient_id = alice, m_item_id = umbrella_id, m_message = ''Dated'',
           m_read = Some True, m_created_at = Some 9000000\<rparr>"

definition tie_db :: db where
  "tie_db = example_db\<lparr>messages := [reply_a, reply_b, note_c, note_d]\<rparr>"

section \<open>Proofs: the signup trigger\<close>

subsection \<open>Decimal rendering is injective\<close>

lemma of_char_digit_char: "d < 10 \<Longrightarrow> of_char (digit_char d) = 48 + d"
  by (simp add: digit_char_def)

lemma digit_char_inj: "d < 10 \<Longrightarrow> e < 10 \<Longrightarrow> digit_char d = digit_char e \<Longrightarrow> d = e"
proof -
  assume d: "d < 10" and e: "e < 10" and eq: "digit_char d = digit_char e"
  have "48 + d = (of_char (digit_char d) :: nat)" using d by (simp only: of_char_digit_char)
  also have "\<dots> = of_char (digit_char e)" by (simp only: eq)
  also have "\<dots> = 48 + e" using e by (simp only: of_char_digit_char)
  finally show "d = e" by simp
qed

lemma nat_to_text_small: "n < 10 \<Longrightarrow> nat_to_text n = [digit_char n]"
  by (simp add: nat_to_text.simps)

lemma nat_to_text_big: "\<not> n < 10 \<Longrightarrow> nat_to_text n = nat_to_text (n div 10) @ [digit_char (n mod 10)]"
  by (subst nat_to_text.simps) simp

lemma nat_to_text_nonempty: "nat_to_text n \<noteq> []"
  by (cases "n < 10") (simp_all add: nat_to_text_small nat_to_text_big)

lemma nat_to_text_nonempty': "[] \<noteq> nat_to_text n"
  using nat_to_text_nonempty [of n] by simp

lemma nat_to_text_inj: "nat_to_text n = nat_to_text m \<Longrightarrow> n = m"
proof (induction n arbitrary: m rule: nat_to_text.induct)
  case (1 n)
  show ?case
  proof (cases "n < 10")
    case True
    note n = this
    show ?thesis
    proof (cases "m < 10")
      case True
      with n "1.prems" show ?thesis
        by (simp add: nat_to_text_small digit_char_inj)
    next
      case False
      with n "1.prems" show ?thesis
        by (simp add: nat_to_text_small nat_to_text_big nat_to_text_nonempty nat_to_text_nonempty')
    qed
  next
    case False
    note n = this
    show ?thesis
    proof (cases "m < 10")
      case True
      with n "1.prems" show ?thesis
        by (simp add: nat_to_text_small nat_to_text_big nat_to_text_nonempty nat_to_text_nonempty')
    next
      case False
      with n "1.prems" have eq: "nat_to_text (n div 10) = nat_to_text (m div 10)"
        and d: "digit_char (n mod 10) = digit_char (m mod 10)"
        by (simp_all add: nat_to_text_big)
      from "1.IH" [OF n eq] have "n div 10 = m div 10" .
      moreover from d have "n mod 10 = m mod 10"
        by (intro digit_char_inj) simp_all
      ultimately show ?thesis
        by (metis div_mult_mod_eq)
    qed
  qed
qed

lemma int_to_text_inj: "0 \<le> i \<Longrightarrow> 0 \<le> j \<Longrightarrow> int_to_text i = int_to_text j \<Longrightarrow> i = j"
  by (auto simp: int_to_text_def dest: nat_to_text_inj)

lemma int_to_text_nonempty: "int_to_text i \<noteq> []"
  by (simp add: int_to_text_def nat_to_text_nonempty)

subsection \<open>The suffix loop\<close>

lemma loop_free:
  "final \<notin> set (map username ps) \<Longrightarrow> unique_username_loop ps base final counter = Inr final"
  by (subst unique_username_loop.simps) simp

lemma loop_step:
  "final \<in> set (map username ps) \<Longrightarrow> counter \<le> 2147483646 \<Longrightarrow>
   unique_username_loop ps base final counter =
   unique_username_loop ps base (base @ int_to_text counter) (counter + 1)"
  by (subst unique_username_loop.simps) simp

lemma loop_overflow:
  "final \<in> set (map username ps) \<Longrightarrow> 2147483646 < counter \<Longrightarrow>
   unique_username_loop ps base final counter = Inl numeric_value_out_of_range"
  by (subst unique_username_loop.simps) simp

lemma loop_least:
  assumes "final \<in> set (map username ps)" "counter \<le> k" "k \<le> 2147483646"
    and "base @ int_to_text k \<notin> set (map username ps)"
    and "\<forall>j. counter \<le> j \<and> j < k \<longrightarrow> base @ int_to_text j \<in> set (map username ps)"
  shows "unique_username_loop ps base final counter = Inr (base @ int_to_text k)"
  using assms
proof (induction "nat (k - counter)" arbitrary: final counter)
  case 0
  then have "counter = k" by simp
  with 0 show ?case by (simp add: loop_step loop_free)
next
  case (Suc n)
  then have lt: "counter < k" by linarith
  with Suc.prems have nxt: "base @ int_to_text counter \<in> set (map username ps)" by simp
  have "unique_username_loop ps base (base @ int_to_text counter) (counter + 1) = Inr (base @ int_to_text k)"
  proof (rule Suc.hyps(1))
    show "n = nat (k - (counter + 1))" using Suc.hyps(2) by linarith
    show "base @ int_to_text counter \<in> set (map username ps)" by (rule nxt)
    show "counter + 1 \<le> k" using lt by simp
    show "k \<le> 2147483646" by (rule Suc.prems(3))
    show "base @ int_to_text k \<notin> set (map username ps)" by (rule Suc.prems(4))
    show "\<forall>j. counter + 1 \<le> j \<and> j < k \<longrightarrow> base @ int_to_text j \<in> set (map username ps)"
      using Suc.prems(5) by simp
  qed
  moreover have "counter \<le> 2147483646" using lt Suc.prems(3) by simp
  ultimately show ?case using Suc.prems(1) by (simp add: loop_step)
qed

lemma loop_all_taken:
  assumes "final \<in> set (map username ps)" "counter \<le> 2147483647"
    and "\<forall>j. counter \<le> j \<and> j \<le> 2147483646 \<longrightarrow> base @ int_to_text j \<in> set (map username ps)"
  shows "unique_username_loop ps base final counter = Inl numeric_value_out_of_range"
  using assms
proof (induction "nat (2147483647 - counter)" arbitrary: final counter)
  case 0
  then have "2147483646 < counter" by simp
  with 0 show ?case by (simp add: loop_overflow)
next
  case (Suc n)
  then have le: "counter \<le> 2147483646" by linarith
  with Suc.prems have nxt: "base @ int_to_text counter \<in> set (map username ps)" by simp
  have "unique_username_loop ps base (base @ int_to_text counter) (counter + 1) = Inl numeric_value_out_of_range"
  proof (rule Suc.hyps(1))
    show "n = nat (2147483647 - (counter + 1))" using Suc.hyps(2) by linarith
    show "base @ int_to_text counter \<in> set (map username ps)" by (rule nxt)
    show "counter + 1 \<le> 2147483647" using le by simp
    show "\<forall>j. counter + 1 \<le> j \<and> j \<le> 2147483646 \<longrightarrow> base @ int_to_text j \<in> set (map username ps)"
      using Suc.prems(3) by simp
  qed
  then show ?case using Suc.prems(1) le by (simp add: loop_step)
qed

lemma least_free_suffix:
  assumes "\<exists>k. 1 \<le> k \<and> k \<le> (2147483646::int) \<and> P k"
  shows "\<exists>k. 1 \<le> k \<and> k \<le> 2147483646 \<and> P k \<and> (\<forall>j. 1 \<le> j \<and> j < k \<longrightarrow> \<not> P j)"
proof -
  define Q where "Q n \<longleftrightarrow> 1 \<le> n \<and> P (int n)" for n :: nat
  from assms obtain k where k: "1 \<le> k" "k \<le> 2147483646" "P k" by blast
  then have "Q (nat k)" by (simp add: Q_def)
  then have L: "Q (LEAST n. Q n)" by (rule LeastI)
  have M: "\<not> Q m" if "m < (LEAST n. Q n)" for m using that by (rule not_less_Least)
  define l where "l = int (LEAST n. Q n)"
  have "(LEAST n. Q n) \<le> nat k" using \<open>Q (nat k)\<close> by (rule Least_le)
  then have "l \<le> k" using k by (simp add: l_def)
  moreover have "1 \<le> l" "P l" using L by (simp_all add: Q_def l_def)
  moreover have "\<not> P j" if "1 \<le> j" "j < l" for j
  proof -
    have "nat j < (LEAST n. Q n)" using that by (simp add: l_def)
    from M [OF this] that show ?thesis by (simp add: Q_def)
  qed
  ultimately show ?thesis using k by (intro exI [of _ l]) auto
qed

lemma candidate_handle_inj:
  assumes "0 \<le> i" "0 \<le> j" "candidate_handle base i = candidate_handle base j"
  shows "i = j"
proof (cases "i = 0")
  case True
  with assms show ?thesis
    by (cases "j = 0") (simp_all add: candidate_handle_def int_to_text_nonempty)
next
  case False
  with assms show ?thesis
    by (cases "j = 0") (simp_all add: candidate_handle_def int_to_text_nonempty int_to_text_inj)
qed

lemma free_candidate_exists:
  assumes "card E < 2147483647" "finite E"
  shows "\<exists>k. 0 \<le> k \<and> k \<le> 2147483646 \<and> candidate_handle base k \<notin> E"
proof (rule ccontr)
  assume "\<not> ?thesis"
  then have sub: "candidate_handle base ` {0..2147483646} \<subseteq> E" by auto
  have "inj_on (candidate_handle base) {0..2147483646}"
    by (rule inj_onI) (auto dest: candidate_handle_inj)
  then have "card (candidate_handle base ` {0..2147483646}) = card {0..2147483646::int}"
    by (rule card_image)
  also have "\<dots> = 2147483647" by simp
  finally have "2147483647 \<le> card E"
    using card_mono [OF \<open>finite E\<close> sub] by simp
  with assms show False by simp
qed

lemma unique_username_result:
  assumes "\<exists>k. 0 \<le> k \<and> k \<le> 2147483646 \<and> candidate_handle base k \<notin> set (map username ps)"
  shows "\<exists>k. 0 \<le> k \<and> k \<le> 2147483646 \<and> candidate_handle base k \<notin> set (map username ps)
           \<and> (\<forall>j. 0 \<le> j \<and> j < k \<longrightarrow> candidate_handle base j \<in> set (map username ps))
           \<and> unique_username ps base = Inr (candidate_handle base k)"
proof (cases "base \<in> set (map username ps)")
  case False
  then have "unique_username ps base = Inr base"
    by (simp add: unique_username_def loop_free)
  with False show ?thesis
    by (intro exI [of _ 0]) (simp add: candidate_handle_def)
next
  case True
  with assms have "\<exists>k. 1 \<le> k \<and> k \<le> 2147483646 \<and> base @ int_to_text k \<notin> set (map username ps)"
    by (metis candidate_handle_def int_one_le_iff_zero_less order_less_le)
  from least_free_suffix [where P = "\<lambda>k. base @ int_to_text k \<notin> set (map username ps)", OF this]
  obtain k where k: "1 \<le> k" "k \<le> 2147483646" "base @ int_to_text k \<notin> set (map username ps)"
    "\<forall>j. 1 \<le> j \<and> j < k \<longrightarrow> base @ int_to_text j \<in> set (map username ps)"
    by auto
  have "unique_username ps base = Inr (base @ int_to_text k)"
    unfolding unique_username_def using True k by (intro loop_least) auto
  moreover have "candidate_handle base j \<in> set (map username ps)" if "0 \<le> j" "j < k" for j
    using that True k(4) by (cases "j = 0") (auto simp: candidate_handle_def)
  ultimately show ?thesis using k
    by (intro exI [of _ k]) (auto simp: candidate_handle_def)
qed

lemma unique_username_total:
  "(\<exists>h. unique_username ps base = Inr h \<and> h \<notin> set (map username ps))
   \<or> unique_username ps base = Inl numeric_value_out_of_range"
proof (cases "\<exists>k. 0 \<le> k \<and> k \<le> 2147483646 \<and> candidate_handle base k \<notin> set (map username ps)")
  case True
  from unique_username_result [OF this] show ?thesis by auto
next
  case False
  then have all: "\<forall>k. 0 \<le> k \<and> k \<le> 2147483646 \<longrightarrow> candidate_handle base k \<in> set (map username ps)"
    by blast
  then have "base \<in> set (map username ps)"
    by (metis candidate_handle_def order_refl zero_le_numeral)
  moreover have "\<forall>j. 1 \<le> j \<and> j \<le> 2147483646 \<longrightarrow> base @ int_to_text j \<in> set (map username ps)"
  proof (intro allI impI)
    fix j :: int assume j: "1 \<le> j \<and> j \<le> 2147483646"
    then have "candidate_handle base j \<in> set (map username ps)" using all by simp
    with j show "base @ int_to_text j \<in> set (map username ps)" by (simp add: candidate_handle_def)
  qed
  ultimately have "unique_username ps base = Inl numeric_value_out_of_range"
    unfolding unique_username_def by (intro loop_all_taken) simp_all
  then show ?thesis by simp
qed

lemma crowded_usernames:
  "set (map username crowded_profiles) = candidate_handle ''a'' ` {0..2147483646}"
  unfolding crowded_profiles_def by (simp only: set_map set_upto image_image profile.simps)

lemma crowded_overflow_aux:
  "unique_username crowded_profiles ''a'' = Inl numeric_value_out_of_range"
proof -
  have "''a'' \<in> set (map username crowded_profiles)"
    unfolding crowded_usernames by (rule image_eqI [of _ _ 0]) (simp_all add: candidate_handle_def)
  moreover have "\<forall>j. 1 \<le> j \<and> j \<le> 2147483646 \<longrightarrow> ''a'' @ int_to_text j \<in> set (map username crowded_profiles)"
  proof (intro allI impI)
    fix j :: int assume j: "1 \<le> j \<and> j \<le> 2147483646"
    show "''a'' @ int_to_text j \<in> set (map username crowded_profiles)"
      unfolding crowded_usernames using j by (intro image_eqI [of _ _ j]) (simp_all add: candidate_handle_def)
  qed
  ultimately show ?thesis
    unfolding unique_username_def by (intro loop_all_taken) simp_all
qed

lemma base_username_spec:
  "base_username lower new = map_option (sanitize lower) (spec_handle_source new)"
  by (simp add: base_username_def spec_handle_source_def COALESCE_def NULLIF_def
      split_part_1_def split: option.splits)

lemma full_name_spec:
  "COALESCE (NULLIF (map_option trim (raw_user_meta_data new ''full_name'')) '''') (Some h)
   = Some (spec_display_name new h)"
  by (simp add: spec_display_name_def COALESCE_def NULLIF_def split: option.splits)

subsection \<open>The handle a registration gets\<close>

text \<open>
  C2. On account registration the handle's source is the provided metadata username
  (one that is not blank), or else the local part of the email. The source is lowercased
  (by the \<open>lower\<close> of the database, whatever its locale makes of a letter outside ASCII),
  stripped of every character outside \<open>[a-z0-9_]\<close> and cut to 20 characters. The profile
  gets the first free candidate in the order \<open>base\<close>, \<open>base1\<close>, \<open>base2\<close>, ...: every
  earlier candidate is an existing handle and the chosen one is not. The display name is
  the trimmed full name of the metadata, or the handle when none is given. The row is
  appended to the profiles with the default role. (Hypotheses: the account has a source
  for the handle, its id has no profile yet, and a candidate within the range of the
  32-bit counter is free.)
\<close>

theorem handle_new_user_derives_handle:
  assumes src: "spec_handle_source new = Some s"
    and fresh: "u_id new \<notin> set (map p_id ps)"
    and room: "\<exists>k. 0 \<le> k \<and> k \<le> 2147483646 \<and> candidate_handle (sanitize lower s) k \<notin> set (map username ps)"
  shows "sanitize lower s = take 20 (filter handle_char (lower s))
         \<and> (\<exists>k. 0 \<le> k \<and> k \<le> 2147483646
               \<and> candidate_handle (sanitize lower s) k \<notin> set (map username ps)
               \<and> (\<forall>j. 0 \<le> j \<and> j < k \<longrightarrow> candidate_handle (sanitize lower s) j \<in> set (map username ps))
               \<and> handle_new_user lower ps new =
                   Inr (ps @ [\<lparr>p_id = u_id new,
                               username = candidate_handle (sanitize lower s) k,
                               full_name = Some (spec_display_name new (candidate_handle (sanitize lower s) k)),
                               role = Some User, avatar_url = None\<rparr>]))"
proof
  show "sanitize lower s = take 20 (filter handle_char (lower s))"
    by (simp add: sanitize_def substring_1_20_def strip_non_handle_def)
next
  from unique_username_result [OF room] obtain k where k: "0 \<le> k" "k \<le> 2147483646"
    "candidate_handle (sanitize lower s) k \<notin> set (map username ps)"
    "\<forall>j. 0 \<le> j \<and> j < k \<longrightarrow> candidate_handle (sanitize lower s) j \<in> set (map username ps)"
    "unique_username ps (sanitize lower s) = Inr (candidate_handle (sanitize lower s) k)"
    by blast
  have "base_username lower new = Some (sanitize lower s)"
    by (simp add: base_username_spec src)
  then have "handle_new_user lower ps new =
      Inr (ps @ [\<lparr>p_id = u_id new, username = candidate_handle (sanitize lower s) k,
                  full_name = Some (spec_display_name new (candidate_handle (sanitize lower s) k)),
                  role = Some User, avatar_url = None\<rparr>])"
    using k(3,5) fresh by (simp add: handle_new_user_def insert_profile_def full_name_spec)
  with k(1-4) show "\<exists>k. 0 \<le> k \<and> k \<le> 2147483646
               \<and> candidate_handle (sanitize lower s) k \<notin> set (map username ps)
               \<and> (\<forall>j. 0 \<le> j \<and> j < k \<longrightarrow> candidate_handle (sanitize lower s) j \<in> set (map username ps))
               \<and> handle_new_user lower ps new =
                   Inr (ps @ [\<lparr>p_id = u_id new,
                               username = candidate_handle (sanitize lower s) k,
                               full_name = Some (spec_display_name new (candidate_handle (sanitize lower s) k)),
                               role = Some User, avatar_url = None\<rparr>])" by blast
qed

lemma johnsmith_sources:
  "spec_handle_source johnsmith_by_metadata = Some ''JohnSmith''"
  "spec_handle_source johnsmith_by_email = Some ''John.Smith''"
  by (simp_all add: spec_handle_source_def johnsmith_by_metadata_def johnsmith_by_email_def trim_def)

lemma johnsmith_sanitized:
  "sanitize lower_C ''JohnSmith'' = ''johnsmith''"
  "sanitize lower_C ''John.Smith'' = ''johnsmith''"
  by code_simp+

lemma johnsmith_candidates:
  "candidate_handle ''johnsmith'' 0 = ''johnsmith''"
  "candidate_handle ''johnsmith'' 1 = ''johnsmith1''"
  by code_simp+

lemma johnsmith_display:
  "spec_display_name johnsmith_by_metadata h = h"
  "spec_display_name johnsmith_by_email h = h"
  by (simp_all add: spec_display_name_def johnsmith_by_metadata_def johnsmith_by_email_def)

text \<open>
  C2, witness: on an empty table, the registration with metadata username \<open>JohnSmith\<close>
  gets the handle \<open>johnsmith\<close>, and then the registration with the email
  \<open>John.Smith@example.org\<close> and no metadata username gets \<open>johnsmith1\<close>; both display
  names fall back to the handle. (The database of the example has the C locale.)
\<close>

theorem handle_new_user_johnsmith:
  "handle_new_user lower_C [] johnsmith_by_metadata = Inr [johnsmith_profile]
   \<and> handle_new_user lower_C [johnsmith_profile] johnsmith_by_email = Inr [johnsmith_profile, johnsmith1_profile]
   \<and> username johnsmith_profile = ''johnsmith'' \<and> full_name johnsmith_profile = Some ''johnsmith''
   \<and> username johnsmith1_profile = ''johnsmith1'' \<and> full_name johnsmith1_profile = Some ''johnsmith1''"
proof -
  have "\<exists>k. 0 \<le> k \<and> k \<le> 2147483646 \<and> candidate_handle (sanitize lower_C ''JohnSmith'') k \<notin> set (map username [])"
    by (intro exI [of _ 0]) simp
  from handle_new_user_derives_handle [OF johnsmith_sources(1) _ this]
  obtain k where k: "0 \<le> k"
    "\<forall>j. 0 \<le> j \<and> j < k \<longrightarrow> candidate_handle ''johnsmith'' j \<in> set (map username [])"
    "handle_new_user lower_C [] johnsmith_by_metadata =
       Inr ([] @ [\<lparr>p_id = u_id johnsmith_by_metadata, username = candidate_handle ''johnsmith'' k,
                    full_name = Some (candidate_handle ''johnsmith'' k), role = Some User, avatar_url = None\<rparr>])"
    by (auto simp: johnsmith_sanitized johnsmith_display)
  from k(1,2) have "k = 0" by (cases "k = 0") auto
  with k(3) have first: "handle_new_user lower_C [] johnsmith_by_metadata = Inr [johnsmith_profile]"
    by (simp add: johnsmith_candidates johnsmith_profile_def johnsmith_by_metadata_def)
  have "\<exists>k. 0 \<le> k \<and> k \<le> 2147483646 \<and> candidate_handle (sanitize lower_C ''John.Smith'') k \<notin> set (map username [johnsmith_profile])"
    by (intro exI [of _ 1]) (simp add: johnsmith_sanitized johnsmith_candidates johnsmith_profile_def)
  moreover have "u_id johnsmith_by_email \<notin> set (map p_id [johnsmith_profile])"
    by (simp add: johnsmith_by_email_def johnsmith_profile_def)
  ultimately obtain l where l: "0 \<le> l"
    "candidate_handle ''johnsmith'' l \<notin> set (map username [johnsmith_profile])"
    "\<forall>j. 0 \<le> j \<and> j < l \<longrightarrow> candidate_handle ''johnsmith'' j \<in> set (map username [johnsmith_profile])"
    "handle_new_user lower_C [johnsmith_profile] johnsmith_by_email =
       Inr ([johnsmith_profile] @ [\<lparr>p_id = u_id johnsmith_by_email, username = candidate_handle ''johnsmith'' l,
                    full_name = Some (candidate_handle ''johnsmith'' l), role = Some User, avatar_url = None\<rparr>])"
    using handle_new_user_derives_handle [OF johnsmith_sources(2), where ps = "[johnsmith_profile]" and lower = lower_C]
    by (auto simp: johnsmith_sanitized johnsmith_display)
  have "l \<noteq> 0" using l(2) by (auto simp: johnsmith_candidates johnsmith_profile_def)
  moreover have "\<not> 1 < l"
  proof
    assume "1 < l"
    with l(3) have "candidate_handle ''johnsmith'' 1 \<in> set (map username [johnsmith_profile])" by simp
    then show False by (simp add: johnsmith_candidates johnsmith_profile_def)
  qed
  ultimately have "l = 1" using l(1) by linarith
  with l(4) have second: "handle_new_user lower_C [johnsmith_profile] johnsmith_by_email = Inr [johnsmith_profile, johnsmith1_profile]"
    by (simp add: johnsmith_candidates johnsmith1_profile_def johnsmith_by_email_def)
  from first second show ?thesis
    by (simp add: johnsmith_profile_def johnsmith1_profile_def)
qed

subsection \<open>Termination and result of the suffix loop\<close>

text \<open>
  C9 (as amended). For every profiles table and every base candidate the suffix loop ends:
  it returns a handle that is not an existing one, or it raises "integer out of range". When
  fewer than 2147483647 handles exist, it returns a handle that is not an existing one.
  (The loop is a total function: its definition carries the termination proof.)
\<close>

theorem unique_username_terminates_bounded:
  "((\<exists>h. unique_username ps base = Inr h \<and> h \<notin> set (map username ps))
      \<or> unique_username ps base = Inl numeric_value_out_of_range)
   \<and> (card (set (map username ps)) < 2147483647 \<longrightarrow>
        (\<exists>h. unique_username ps base = Inr h \<and> h \<notin> set (map username ps)))"
proof
  show "(\<exists>h. unique_username ps base = Inr h \<and> h \<notin> set (map username ps))
      \<or> unique_username ps base = Inl numeric_value_out_of_range"
    by (rule unique_username_total)
next
  show "card (set (map username ps)) < 2147483647 \<longrightarrow>
        (\<exists>h. unique_username ps base = Inr h \<and> h \<notin> set (map username ps))"
  proof
    assume "card (set (map username ps)) < 2147483647"
    then have "\<exists>k. 0 \<le> k \<and> k \<le> 2147483646 \<and> candidate_handle base k \<notin> set (map username ps)"
      by (intro free_candidate_exists) simp_all
    from unique_username_result [OF this]
    show "\<exists>h. unique_username ps base = Inr h \<and> h \<notin> set (map username ps)" by blast
  qed
qed

text \<open>C9, witness: one existing handle \<open>johnsmith\<close>, base \<open>johnsmith\<close>.\<close>

theorem unique_username_johnsmith:
  "card (set (map username [johnsmith_profile])) < 2147483647
   \<and> (\<exists>h. unique_username [johnsmith_profile] ''johnsmith'' = Inr h
          \<and> h \<notin> set (map username [johnsmith_profile]))"
proof -
  have "card (set (map username [johnsmith_profile])) < 2147483647" by simp
  with unique_username_terminates_bounded [of "[johnsmith_profile]" "''johnsmith''"]
  show ?thesis by blast
qed

text \<open>
  C9, counterexample to the claim as stated: with the finite set of handles \<open>a\<close>,
  \<open>a1\<close>, ..., \<open>a2147483646\<close> and the non-empty base \<open>a\<close>, the loop yields no handle:
  the increment of the counter past 2147483647 raises.
\<close>

theorem unique_username_overflow:
  "''a'' \<noteq> [] \<and> finite (set (map username crowded_profiles))
   \<and> unique_username crowded_profiles ''a'' = Inl numeric_value_out_of_range"
  using crowded_overflow_aux by simp

section \<open>Proofs: policies and triggers\<close>

lemma example_ids_distinct:
  "alice \<noteq> bob" "alice \<noteq> carol" "bob \<noteq> carol" "bob \<noteq> alice" "carol \<noteq> alice" "carol \<noteq> bob"
  "backpack_id \<noteq> umbrella_id" "umbrella_id \<noteq> backpack_id"
  by (simp_all add: alice_def bob_def carol_def backpack_id_def umbrella_id_def)

lemma example_roles:
  "get_user_role example_db (Some alice) = Some User"
  "get_user_role example_db (Some bob) = Some User"
  "get_user_role example_db (Some carol) = Some Admin"
  by (simp_all add: get_user_role_def example_db_def example_profiles_def example_ids_distinct)

subsection \<open>Reading items\<close>

text \<open>
  C5 (as amended). For every caller and every row of \<open>items\<close>, the caller's select returns
  the row if and only if its status is active or the caller is an admin. Being the item's
  owner gives no read access: the only \<open>SELECT\<close> policies are "Anyone can view active
  items" and the admins' \<open>FOR ALL\<close> policy.
\<close>

theorem items_select_iff_active_or_admin:
  "r \<in> set (select_items d c) \<longleftrightarrow>
     r \<in> set (items d) \<and> (i_status r = Some Active \<or> get_user_role d (auth_uid c) = Some Admin)"
  by (simp add: select_items_def items_select_policy_def anyone_can_view_active_items_def
      admins_can_manage_all_items_def)

text \<open>
  C5, witness: Bob reads the active backpack and not the claimed umbrella; Carol, an
  admin, reads the umbrella.
\<close>

theorem items_select_example:
  "backpack \<in> set (select_items example_db (signed_in bob))
   \<and> umbrella \<notin> set (select_items example_db (signed_in bob))
   \<and> umbrella \<in> set (select_items example_db (signed_in carol))"
  using items_select_iff_active_or_admin [of backpack example_db "signed_in bob"]
    items_select_iff_active_or_admin [of umbrella example_db "signed_in bob"]
    items_select_iff_active_or_admin [of umbrella example_db "signed_in carol"]
  by (simp add: signed_in_def example_roles) (simp add: example_db_def backpack_def umbrella_def)

text \<open>
  C5, counterexample to the claim as stated: Alice owns the claimed umbrella, so the
  claim's condition holds for her, and her select does not return the row.
\<close>

theorem owner_cannot_read_claimed_item:
  "umbrella \<in> set (items example_db)
   \<and> spec_may_read_item example_db (signed_in alice) umbrella
   \<and> umbrella \<notin> set (select_items example_db (signed_in alice))"
  by (simp add: spec_may_read_item_def select_items_def items_select_policy_def
      anyone_can_view_active_items_def admins_can_manage_all_items_def signed_in_def example_roles)
     (simp add: example_db_def umbrella_def)

subsection \<open>Storage policies\<close>

text \<open>
  C7 (as amended). Objects of both buckets can be read by anyone. For an authenticated
  caller, \<open>item-images\<close> permits insert, update and delete of an object if and only if
  the first folder of its path is the caller's id; \<open>profile-avatars\<close> permits update and
  delete under the same condition, and permits every insert, whatever the path.
\<close>

theorem storage_policies:
  assumes "auth_role c = ''authenticated''" "auth_uid c = Some u"
  shows "(bucket_id ob = ''item-images'' \<or> bucket_id ob = ''profile-avatars'' \<longrightarrow> objects_select_policy anyone ob)
       \<and> (bucket_id ob = ''item-images'' \<longrightarrow>
             (objects_insert_policy c ob \<longleftrightarrow> first_folder (o_name ob) = Some u)
           \<and> (objects_update_policy c ob \<longleftrightarrow> first_folder (o_name ob) = Some u)
           \<and> (objects_delete_policy c ob \<longleftrightarrow> first_folder (o_name ob) = Some u))
       \<and> (bucket_id ob = ''profile-avatars'' \<longrightarrow>
             objects_insert_policy c ob
           \<and> (objects_update_policy c ob \<longleftrightarrow> first_folder (o_name ob) = Some u)
           \<and> (objects_delete_policy c ob \<longleftrightarrow> first_folder (o_name ob) = Some u))"
  using assms
  by (auto simp: objects_select_policy_def objects_insert_policy_def objects_update_policy_def
      objects_delete_policy_def anyone_can_view_item_images_def anyone_can_view_profile_avatars_def
      users_can_upload_item_images_def users_can_upload_profile_avatars_def
      users_can_update_own_item_images_def users_can_update_their_own_profile_avatars_def
      users_can_delete_own_item_images_def users_can_delete_their_own_profile_avatars_def
      uid_is_first_folder_def)

lemma first_folder_examples:
  "first_folder (o_name image_upload) = Some alice"
  "first_folder (o_name avatar_upload) = None"
  by (simp_all add: first_folder_def foldername_def image_upload_def avatar_upload_def alice_def)

text \<open>
  C7, witness: Alice's item image under her own folder, which Bob may not insert, and her
  avatar at the bucket's top level, which she may insert and may not update.
\<close>

theorem storage_policies_example:
  "objects_select_policy \<lparr>auth_role = ''anon'', auth_uid = None\<rparr> image_upload
   \<and> objects_insert_policy (signed_in alice) image_upload
   \<and> \<not> objects_insert_policy (signed_in bob) image_upload
   \<and> objects_insert_policy (signed_in alice) avatar_upload
   \<and> \<not> objects_update_policy (signed_in alice) avatar_upload"
  using storage_policies [of "signed_in alice" alice image_upload "\<lparr>auth_role = ''anon'', auth_uid = None\<rparr>"]
    storage_policies [of "signed_in bob" bob image_upload]
    storage_policies [of "signed_in alice" alice avatar_upload]
  by (simp add: signed_in_def first_folder_examples example_ids_distinct)
     (simp add: image_upload_def avatar_upload_def)

text \<open>
  C7, counterexample to the claim as stated: the policy permits Alice's avatar upload
  although the path has no folder, so its first folder is not her id.
\<close>

theorem avatar_insert_ignores_prefix:
  "auth_role (signed_in alice) = ''authenticated''
   \<and> bucket_id avatar_upload = ''profile-avatars''
   \<and> objects_insert_policy (signed_in alice) avatar_upload
   \<and> first_folder (o_name avatar_upload) \<noteq> Some alice"
  by (simp add: first_folder_examples objects_insert_policy_def users_can_upload_profile_avatars_def
      signed_in_def) (simp add: avatar_upload_def)

lemma find_Some_title:
  "\<exists>i \<in> set xs. i_id i = k \<Longrightarrow> find (\<lambda>i. i_id i = k) xs = Some (the (find (\<lambda>i. i_id i = k) xs))"
  by (cases "find (\<lambda>i. i_id i = k) xs") (auto simp: find_None_iff)

lemma create_message_notification_spec:
  "create_message_notification d new = notifications_add d (spec_message_notification d new)"
proof (cases "\<exists>i \<in> set (items d). i_id i = m_item_id new")
  case True
  from find_Some_title [OF this] obtain i where "find (\<lambda>i. i_id i = m_item_id new) (items d) = Some i"
    by blast
  with True show ?thesis
    by (simp add: create_message_notification_def spec_message_notification_def)
next
  case False
  then have "find (\<lambda>i. i_id i = m_item_id new) (items d) = None"
    by (simp add: find_None_iff)
  with False show ?thesis
    by (simp add: create_message_notification_def spec_message_notification_def)
qed

subsection \<open>The notification of a new message\<close>

text \<open>
  C1. Every insert into \<open>messages\<close> that succeeds appends, in the same statement, the
  message and exactly one notification: for the message's recipient, of type \<open>message\<close>,
  with the item's title in the body (the item resolves, as the foreign key demands). The
  trigger function itself builds that notification for any new row whose recipient is an
  account, with the generic body when no item has the row's \<open>item_id\<close>.
\<close>

theorem message_insert_creates_one_notification:
  "(insert_message d c r = Inr d' \<longrightarrow>
      messages d' = messages d @ [r]
      \<and> notifications d' = notifications d @ [spec_message_notification d r]
      \<and> (\<exists>i \<in> set (items d). i_id i = m_item_id r)
      \<and> users d' = users d \<and> profiles d' = profiles d \<and> items d' = items d \<and> claims d' = claims d)
   \<and> (m_recipient_id new \<in> set (users d) \<longrightarrow>
        create_message_notification d new
          = Inr (d\<lparr>notifications := notifications d @ [spec_message_notification d new]\<rparr>))"
proof (intro conjI impI)
  assume "m_recipient_id new \<in> set (users d)"
  then show "create_message_notification d new
          = Inr (d\<lparr>notifications := notifications d @ [spec_message_notification d new]\<rparr>)"
    by (simp add: create_message_notification_spec notifications_add_def spec_message_notification_def)
next
  assume ok: "insert_message d c r = Inr d'"
  then have item: "m_item_id r \<in> set (map i_id (items d))" and rcp: "m_recipient_id r \<in> set (users d)"
    by (auto simp: insert_message_def split: if_splits)
  from item show "\<exists>i \<in> set (items d). i_id i = m_item_id r" by auto
  have same: "spec_message_notification (d\<lparr>messages := messages d @ [r]\<rparr>) r = spec_message_notification d r"
    by (simp add: spec_message_notification_def)
  from ok rcp have d': "d' = d\<lparr>messages := messages d @ [r],
      notifications := notifications d @ [spec_message_notification d r]\<rparr>"
    by (auto simp: insert_message_def create_message_notification_spec notifications_add_def same
        spec_message_notification_def split: if_splits)
  show "messages d' = messages d @ [r]" "notifications d' = notifications d @ [spec_message_notification d r]"
    "users d' = users d" "profiles d' = profiles d" "items d' = items d" "claims d' = claims d"
    by (simp_all add: d')
qed

lemma bobs_message_inserted:
  "\<exists>d'. insert_message example_db (signed_in bob) bobs_message = Inr d'"
  by (simp add: insert_message_def users_can_send_messages_def signed_in_def bobs_message_def
      create_message_notification_def notifications_add_def)
     (simp add: example_db_def msg1_def msg2_def msg3_def msg4_def backpack_def umbrella_def example_ids_distinct)

lemma bobs_message_notification:
  "spec_message_notification example_db bobs_message =
     \<lparr>n_user_id = alice, n_type = ''message'', n_title = ''New Message'',
      n_message = ''You have received a new message about \"Blue Backpack\"'', n_read = Some False\<rparr>"
  by (simp add: spec_message_notification_def bobs_message_def example_db_def backpack_def)

text \<open>C1, witness: Bob's message about the backpack notifies Alice once, naming the backpack.\<close>

theorem message_insert_example:
  "\<exists>d'. insert_message example_db (signed_in bob) bobs_message = Inr d'
     \<and> messages d' = [msg1, msg2, msg3, msg4, bobs_message]
     \<and> notifications d' =
          [\<lparr>n_user_id = alice, n_type = ''message'', n_title = ''New Message'',
            n_message = ''You have received a new message about \"Blue Backpack\"'', n_read = Some False\<rparr>]"
proof -
  from bobs_message_inserted obtain d' where d': "insert_message example_db (signed_in bob) bobs_message = Inr d'"
    by blast
  with message_insert_creates_one_notification [of example_db "signed_in bob" bobs_message d']
  have "messages d' = messages example_db @ [bobs_message]"
    "notifications d' = notifications example_db @ [spec_message_notification example_db bobs_message]"
    by simp_all
  then have "messages d' = [msg1, msg2, msg3, msg4, bobs_message]"
    "notifications d' = [\<lparr>n_user_id = alice, n_type = ''message'', n_title = ''New Message'',
            n_message = ''You have received a new message about \"Blue Backpack\"'', n_read = Some False\<rparr>]"
    by (simp_all add: bobs_message_notification) (simp_all add: example_db_def)
  with d' show ?thesis by blast
qed

section \<open>Proofs: the schema's constraints and claims\<close>

subsection \<open>Every request keeps the constraints\<close>

lemma constraints_hold_empty: "constraints_hold empty_db"
  by (simp add: constraints_hold_def empty_db_def)

lemma insert_profile_Inr:
  "insert_profile ps pid uname fname = Inr ps' \<Longrightarrow>
   \<exists>un. uname = Some un \<and> pid \<notin> set (map p_id ps) \<and> un \<notin> set (map username ps)
        \<and> ps' = ps @ [\<lparr>p_id = pid, username = un, full_name = fname, role = Some User, avatar_url = None\<rparr>]"
  by (auto simp: insert_profile_def split: option.splits if_splits)

lemma handle_new_user_Inr:
  assumes "handle_new_user lower ps new = Inr ps'"
  shows "\<exists>p. ps' = ps @ [p] \<and> p_id p = u_id new \<and> p_id p \<notin> set (map p_id ps)
             \<and> username p \<notin> set (map username ps)"
  using assms
  by (auto simp: handle_new_user_def split: option.splits sum.splits dest!: insert_profile_Inr)

lemma sign_up_preserves:
  assumes "constraints_hold d" "on_auth_user_created lower d new = Inr d'"
  shows "constraints_hold d'"
proof -
  from assms(2) obtain ps' where fresh: "u_id new \<notin> set (users d)"
    and h: "handle_new_user lower (profiles d) new = Inr ps'"
    and d': "d' = d\<lparr>users := users d @ [u_id new], profiles := ps'\<rparr>"
    by (auto simp: on_auth_user_created_def split: if_splits sum.splits)
  from handle_new_user_Inr [OF h] obtain p where p: "ps' = profiles d @ [p]" "p_id p = u_id new"
    "p_id p \<notin> set (map p_id (profiles d))" "username p \<notin> set (map username (profiles d))"
    by blast
  show ?thesis
    using assms(1) fresh p unfolding constraints_hold_def d' by auto
qed

lemma insert_item_preserves:
  assumes "constraints_hold d" "insert_item d c ret r = Inr d'"
  shows "constraints_hold d'"
proof -
  from assms(2) have "i_id r \<notin> set (map i_id (items d))" "i_user_id r \<in> set (users d)"
    and d': "d' = d\<lparr>items := items d @ [r]\<rparr>"
    by (auto simp: insert_item_def split: if_splits)
  then show ?thesis using assms(1) unfolding constraints_hold_def d' by auto
qed

lemma update_items_Inr:
  assumes "update_items d c wh upd = Inr d'"
  shows "\<exists>new. d' = d\<lparr>items := new\<rparr> \<and> distinct (map i_id new)
            \<and> (\<forall>r \<in> set new. i_user_id r \<in> set (users d))
            \<and> (\<forall>cl \<in> set (claims d). c_item_id cl \<in> set (map i_id new))
            \<and> (\<forall>m \<in> set (messages d). m_item_id m \<in> set (map i_id new))"
proof -
  define new where "new = map (\<lambda>r. if wh r \<and> items_select_policy d c r \<and> items_update_policy d c r
                                   then upd r else r) (items d)"
  from assms have "d' = d\<lparr>items := new\<rparr>" "distinct (map i_id new)"
    "\<not> ((\<exists>r \<in> set new. i_user_id r \<notin> set (users d))
               \<or> (\<exists>cl \<in> set (claims d). c_item_id cl \<notin> set (map i_id new))
               \<or> (\<exists>m \<in> set (messages d). m_item_id m \<notin> set (map i_id new)))"
    unfolding update_items_def Let_def new_def [symmetric]
    by (simp_all split: if_splits)
  then show ?thesis by blast
qed

lemma update_items_preserves:
  assumes "constraints_hold d" "update_items d c wh upd = Inr d'"
  shows "constraints_hold d'"
proof -
  from update_items_Inr [OF assms(2)] obtain new where d': "d' = d\<lparr>items := new\<rparr>"
    and new: "distinct (map i_id new)" "\<forall>r \<in> set new. i_user_id r \<in> set (users d)"
      "\<forall>cl \<in> set (claims d). c_item_id cl \<in> set (map i_id new)"
      "\<forall>m \<in> set (messages d). m_item_id m \<in> set (map i_id new)"
    by blast
  show ?thesis using assms(1) new unfolding constraints_hold_def d' by simp
qed

lemma delete_items_preserves:
  assumes "constraints_hold d" "delete_items d c wh = Inr d'"
  shows "constraints_hold d'"
proof -
  define hit where "hit = (\<lambda>r. wh r \<and> items_select_policy d c r \<and> items_delete_policy d c r)"
  define gone where "gone = map i_id (filter hit (items d))"
  from assms(2) have d': "d' = d\<lparr>items := filter (\<lambda>r. \<not> hit r) (items d),
                claims := filter (\<lambda>cl. c_item_id cl \<notin> set gone) (claims d),
                messages := filter (\<lambda>m. m_item_id m \<notin> set gone) (messages d)\<rparr>"
    by (simp add: delete_items_def hit_def gone_def Let_def)
  have keep: "k \<in> set (map i_id (filter (\<lambda>r. \<not> hit r) (items d)))"
    if "k \<in> set (map i_id (items d))" "k \<notin> set gone" for k
    using that by (auto simp: gone_def)
  show ?thesis
    using assms(1) keep unfolding constraints_hold_def d'
    by (auto simp: distinct_map_filter)
qed

lemma insert_claim_Inr:
  assumes "insert_claim d c r = Inr d'"
  shows "d' = d\<lparr>claims := claims d @ [r]\<rparr> \<and> claims_insert_policy d c r
         \<and> c_id r \<notin> set (map c_id (claims d)) \<and> claim_pair r \<notin> set (map claim_pair (claims d))
         \<and> c_item_id r \<in> set (map i_id (items d)) \<and> c_claimant_id r \<in> set (users d)"
  using assms by (auto simp: insert_claim_def split: if_splits)

lemma insert_claim_preserves:
  assumes "constraints_hold d" "insert_claim d c r = Inr d'"
  shows "constraints_hold d'"
  using assms(1) insert_claim_Inr [OF assms(2)] unfolding constraints_hold_def by auto

lemma update_claims_Inr:
  assumes "update_claims d c wh upd = Inr d'"
  shows "\<exists>new. d' = d\<lparr>claims := new\<rparr> \<and> distinct (map c_id new) \<and> distinct (map claim_pair new)
            \<and> (\<forall>r \<in> set new. c_item_id r \<in> set (map i_id (items d)) \<and> c_claimant_id r \<in> set (users d))"
proof -
  define new where "new = map (\<lambda>r. if wh r \<and> claims_select_policy d c r \<and> claims_update_policy d c r
                                   then upd r else r) (claims d)"
  from assms have "d' = d\<lparr>claims := new\<rparr>" "distinct (map c_id new)" "distinct (map claim_pair new)"
    "\<not> (\<exists>r \<in> set new. c_item_id r \<notin> set (map i_id (items d)) \<or> c_claimant_id r \<notin> set (users d))"
    unfolding update_claims_def Let_def new_def [symmetric]
    by (simp_all split: if_splits)
  then show ?thesis by blast
qed

lemma update_claims_preserves:
  assumes "constraints_hold d" "update_claims d c wh upd = Inr d'"
  shows "constraints_hold d'"
proof -
  from update_claims_Inr [OF assms(2)] obtain new where d': "d' = d\<lparr>claims := new\<rparr>"
    and new: "distinct (map c_id new)" "distinct (map claim_pair new)"
      "\<forall>r \<in> set new. c_item_id r \<in> set (map i_id (items d)) \<and> c_claimant_id r \<in> set (users d)"
    by blast
  show ?thesis using assms(1) new unfolding constraints_hold_def d' by simp
qed

lemma delete_claims_preserves:
  assumes "constraints_hold d" "delete_claims d c wh = Inr d'"
  shows "constraints_hold d'"
proof -
  define hit where "hit = (\<lambda>r. wh r \<and> claims_select_policy d c r \<and> claims_delete_policy d c r)"
  from assms(2) have d': "d' = d\<lparr>claims := filter (\<lambda>r. \<not> hit r) (claims d)\<rparr>"
    by (simp add: delete_claims_def Let_def hit_def)
  show ?thesis using assms(1) unfolding constraints_hold_def d'
    by (auto simp: distinct_map_filter)
qed

lemma notifications_add_preserves:
  assumes "constraints_hold d" "notifications_add d r = Inr d'"
  shows "constraints_hold d'"
  using assms unfolding constraints_hold_def notifications_add_def
  by (auto split: if_splits)

lemma insert_message_preserves:
  assumes "constraints_hold d" "insert_message d c r = Inr d'"
  shows "constraints_hold d'"
proof -
  from assms(2) have ok: "m_id r \<notin> set (map m_id (messages d))" "m_sender_id r \<in> set (users d)"
    "m_recipient_id r \<in> set (users d)" "m_item_id r \<in> set (map i_id (items d))"
    and n: "create_message_notification (d\<lparr>messages := messages d @ [r]\<rparr>) r = Inr d'"
    by (auto simp: insert_message_def split: if_splits)
  have "constraints_hold (d\<lparr>messages := messages d @ [r]\<rparr>)"
    using assms(1) ok unfolding constraints_hold_def by auto
  with n show ?thesis
    by (auto simp: create_message_notification_spec intro: notifications_add_preserves)
qed

lemma perform_preserves:
  assumes "constraints_hold d" "perform lower d rq = Inr d'"
  shows "constraints_hold d'"
proof (cases rq)
  case (SignUp new)
  with assms show ?thesis by (auto intro: sign_up_preserves)
next
  case (InsertItem c ret r)
  with assms show ?thesis by (auto intro: insert_item_preserves)
next
  case (UpdateItems c wh upd)
  with assms show ?thesis by (auto intro: update_items_preserves)
next
  case (DeleteItems c wh)
  with assms show ?thesis by (auto intro: delete_items_preserves)
next
  case (InsertClaim c r)
  with assms show ?thesis by (auto intro: insert_claim_preserves)
next
  case (UpdateClaims c wh upd)
  with assms show ?thesis by (auto intro: update_claims_preserves)
next
  case (DeleteClaims c wh)
  with assms show ?thesis by (auto intro: delete_claims_preserves)
next
  case (InsertMessage c r)
  with assms show ?thesis by (auto intro: insert_message_preserves)
next
  case (InsertNotification c r)
  with assms show ?thesis
    by (auto simp: insert_notification_def split: if_splits intro: notifications_add_preserves)
qed

lemma exec_preserves: "constraints_hold d \<Longrightarrow> constraints_hold (exec lower d rq)"
  by (auto simp: exec_def split: sum.splits intro: perform_preserves)

lemma run_preserves: "constraints_hold d \<Longrightarrow> constraints_hold (run lower d rqs)"
  unfolding run_def by (induction rqs arbitrary: d) (simp_all add: exec_preserves)

lemma own_claims_on_all:
  "own_claims_on d uid itemId = filter (\<lambda>r. claim_pair r = (itemId, uid)) (claims d)"
proof -
  have "claims_select_policy d (signed_in uid) r" if "c_claimant_id r = uid" for r
    using that by (simp add: claims_select_policy_def users_can_view_claims_for_their_items_def signed_in_def)
  then show ?thesis
    unfolding own_claims_on_def select_claims_def filter_filter
    by (intro filter_cong) (auto simp: claim_pair_def)
qed

lemma filter_key_distinct:
  "distinct (map f xs) \<Longrightarrow> x \<in> set xs \<Longrightarrow> filter (\<lambda>y. f y = f x) xs = [x]"
proof (induction xs)
  case Nil
  then show ?case by simp
next
  case (Cons a xs)
  show ?case
  proof (cases "a = x")
    case True
    with Cons.prems have "\<forall>y \<in> set xs. f y \<noteq> f x" by (auto simp: image_iff)
    then have "filter (\<lambda>y. f y = f x) xs = []" by (simp add: filter_empty_conv)
    with True show ?thesis by simp
  next
    case False
    with Cons.prems have "x \<in> set xs" "f a \<noteq> f x" by (auto simp: image_iff)
    with Cons show ?thesis by simp
  qed
qed

lemma filter_key_distinct_short:
  "distinct (map f xs) \<Longrightarrow> length (filter (\<lambda>y. f y = k) xs) \<le> 1"
proof (cases "\<exists>x \<in> set xs. f x = k")
  case True
  then obtain x where "x \<in> set xs" "f x = k" by blast
  moreover assume "distinct (map f xs)"
  ultimately show ?thesis using filter_key_distinct [of f xs x] by simp
next
  case False
  then have "filter (\<lambda>y. f y = k) xs = []" by (simp add: filter_empty_conv)
  then show ?thesis by simp
qed

lemma createClaim_existing:
  assumes "distinct (map claim_pair (claims d))"
    and "r \<in> set (claims d)" "c_item_id r = itemId" "c_claimant_id r = uid"
  shows "createClaim d (Some uid) itemId prompted new_id =
           (d, Some \<lparr>t_title = ''Already Claimed'',
                     t_description = ''You have already submitted a claim for this item''\<rparr>)"
proof -
  have "claim_pair r = (itemId, uid)" using assms(3,4) by (simp add: claim_pair_def)
  with filter_key_distinct [OF assms(1,2)] have "own_claims_on d uid itemId = [r]"
    by (simp add: own_claims_on_all)
  then show ?thesis
    by (simp add: createClaim_def single_def)
qed

subsection \<open>One claim per item and claimant\<close>

text \<open>
  C3. In every state that a sequence of requests reaches from the empty database, no two
  rows of \<open>claims\<close> have the same (item, claimant) pair. An insert of a claim whose pair
  exists is rejected, by the uniqueness constraint when the policy lets it through. And the
  client checks first: when the user has a claim on the item, \<open>createClaim\<close> reports
  "Already Claimed" and sends no insert.
\<close>

theorem claim_pair_unique:
  "distinct (map claim_pair (claims (run lower empty_db rqs)))
   \<and> (claim_pair r \<in> set (map claim_pair (claims d)) \<longrightarrow>
        (\<exists>e. insert_claim d c r = Inl e)
        \<and> (claims_insert_policy d c r \<longrightarrow> insert_claim d c r = Inl unique_violation))
   \<and> (distinct (map claim_pair (claims d))
        \<and> (\<exists>x \<in> set (claims d). c_item_id x = itemId \<and> c_claimant_id x = uid) \<longrightarrow>
        createClaim d (Some uid) itemId prompted new_id =
          (d, Some \<lparr>t_title = ''Already Claimed'',
                    t_description = ''You have already submitted a claim for this item''\<rparr>))"
proof (intro conjI impI)
  have "constraints_hold (run lower empty_db rqs)"
    by (intro run_preserves constraints_hold_empty)
  then show "distinct (map claim_pair (claims (run lower empty_db rqs)))"
    by (simp add: constraints_hold_def)
next
  assume "claim_pair r \<in> set (map claim_pair (claims d))"
  then show "\<exists>e. insert_claim d c r = Inl e" by (simp add: insert_claim_def)
next
  assume "claim_pair r \<in> set (map claim_pair (claims d))" "claims_insert_policy d c r"
  then show "insert_claim d c r = Inl unique_violation" by (simp add: insert_claim_def)
next
  assume "distinct (map claim_pair (claims d))
        \<and> (\<exists>x \<in> set (claims d). c_item_id x = itemId \<and> c_claimant_id x = uid)"
  then show "createClaim d (Some uid) itemId prompted new_id =
          (d, Some \<lparr>t_title = ''Already Claimed'',
                    t_description = ''You have already submitted a claim for this item''\<rparr>)"
    by (auto intro: createClaim_existing)
qed

lemma createClaim_insert_reached:
  assumes "single (own_claims_on d uid itemId) = None" "message \<noteq> []"
  shows "createClaim d (Some uid) itemId (Some message) new_id =
     (case insert_claim d (signed_in uid) (new_claim new_id itemId uid message) of
        Inl error \<Rightarrow> (d, Some \<lparr>t_title = ''Error'', t_description = ''Failed to submit claim''\<rparr>)
      | Inr d1 \<Rightarrow>
          (notify_owner d1 uid (single (filter (\<lambda>i. i_id i = itemId) (select_items d (signed_in uid)))),
           Some \<lparr>t_title = ''Success'', t_description = ''Your claim has been submitted successfully''\<rparr>))"
  using assms
  by (simp add: createClaim_def Let_def split: sum.splits)

lemma notify_owner_claims: "claims (notify_owner d1 uid itemData) = claims d1"
  by (auto simp: notify_owner_def insert_notification_def notifications_add_def
      split: option.splits sum.splits if_splits)

lemma createClaim_unchanged_or_inserted:
  "fst (createClaim d user itemId prompted new_id) = d
   \<or> (\<exists>uid message d1. user = Some uid \<and> prompted = Some message
        \<and> insert_claim d (signed_in uid) (new_claim new_id itemId uid message) = Inr d1
        \<and> claims (fst (createClaim d user itemId prompted new_id)) = claims d @ [new_claim new_id itemId uid message])"
proof (cases user)
  case None
  then show ?thesis by (simp add: createClaim_def)
next
  case (Some uid)
  show ?thesis
  proof (cases "single (own_claims_on d uid itemId)")
    case (Some a)
    with \<open>user = Some uid\<close> show ?thesis
      by (simp add: createClaim_def)
  next
    case None
    note none = this
    show ?thesis
    proof (cases prompted)
      case None
      with none \<open>user = Some uid\<close> show ?thesis
        by (simp add: createClaim_def)
    next
      case (Some message)
      show ?thesis
      proof (cases "message = []")
        case True
        with none Some \<open>user = Some uid\<close> show ?thesis
          by (simp add: createClaim_def)
      next
        case False
        show ?thesis
        proof (cases "insert_claim d (signed_in uid) (new_claim new_id itemId uid message)")
          case (Inl e)
          with createClaim_insert_reached [OF none False, of new_id] Some \<open>user = Some uid\<close>
          show ?thesis by simp
        next
          case (Inr d1)
          from insert_claim_Inr [OF Inr] have d1: "d1 = d\<lparr>claims := claims d @ [new_claim new_id itemId uid message]\<rparr>"
            by simp
          have "claims (fst (createClaim d user itemId prompted new_id)) = claims d1"
            using createClaim_insert_reached [OF none False, of new_id] Some \<open>user = Some uid\<close> Inr
            by (simp add: notify_owner_claims)
          with Inr d1 Some \<open>user = Some uid\<close> show ?thesis by simp
        qed
      qed
    qed
  qed
qed

subsection \<open>The claim notification follows the claim\<close>

text \<open>
  C10. When \<open>createClaim\<close> reaches the insert (no existing claim found, a message
  entered) and the insert of the claim returns an error, the state is returned unchanged
  with the "Failed to submit claim" toast: no notification is created, and no claim of the
  user on the item exists (the table's pairs being unique). In general, whenever
  \<open>createClaim\<close> changes the notifications, the insert of the claim has succeeded and the
  claim is in the table.
\<close>

theorem createClaim_insert_error:
  "(single (own_claims_on d uid itemId) = None \<and> message \<noteq> []
      \<and> insert_claim d (signed_in uid) (new_claim new_id itemId uid message) = Inl e \<longrightarrow>
      createClaim d (Some uid) itemId (Some message) new_id =
        (d, Some \<lparr>t_title = ''Error'', t_description = ''Failed to submit claim''\<rparr>)
      \<and> (distinct (map claim_pair (claims d)) \<longrightarrow>
           (\<forall>x \<in> set (claims d). \<not> (c_item_id x = itemId \<and> c_claimant_id x = uid))))
   \<and> (notifications (fst (createClaim d user itemId prompted new_id)) \<noteq> notifications d \<longrightarrow>
        (\<exists>u m d1. user = Some u \<and> prompted = Some m
           \<and> insert_claim d (signed_in u) (new_claim new_id itemId u m) = Inr d1
           \<and> claims (fst (createClaim d user itemId prompted new_id)) = claims d @ [new_claim new_id itemId u m]))"
proof (intro conjI impI)
  assume a: "single (own_claims_on d uid itemId) = None \<and> message \<noteq> []
      \<and> insert_claim d (signed_in uid) (new_claim new_id itemId uid message) = Inl e"
  then show "createClaim d (Some uid) itemId (Some message) new_id =
        (d, Some \<lparr>t_title = ''Error'', t_description = ''Failed to submit claim''\<rparr>)"
    using createClaim_insert_reached [of d uid itemId message new_id] by simp
  assume dist: "distinct (map claim_pair (claims d))"
  show "\<forall>x \<in> set (claims d). \<not> (c_item_id x = itemId \<and> c_claimant_id x = uid)"
  proof
    fix x assume x: "x \<in> set (claims d)"
    show "\<not> (c_item_id x = itemId \<and> c_claimant_id x = uid)"
    proof
      assume "c_item_id x = itemId \<and> c_claimant_id x = uid"
      then have "claim_pair x = (itemId, uid)" by (simp add: claim_pair_def)
      with filter_key_distinct [OF dist x] have "own_claims_on d uid itemId = [x]"
        by (simp add: own_claims_on_all)
      with a show False by (simp add: single_def)
    qed
  qed
next
  assume "notifications (fst (createClaim d user itemId prompted new_id)) \<noteq> notifications d"
  with createClaim_unchanged_or_inserted [of d user itemId prompted new_id]
  show "\<exists>u m d1. user = Some u \<and> prompted = Some m
           \<and> insert_claim d (signed_in u) (new_claim new_id itemId u m) = Inr d1
           \<and> claims (fst (createClaim d user itemId prompted new_id)) = claims d @ [new_claim new_id itemId u m]"
    by auto
qed

lemma example_run_claims: "claims (run lower_C empty_db example_requests) = [bobs_claim]"
  by code_simp

lemma example_second_insert: "insert_claim example_db (signed_in bob) bobs_second_claim = Inl unique_violation"
  by code_simp

text \<open>
  C3, witness: after two signups, a report and two claims of Bob on the backpack, the
  table holds his first claim only; in the example state a second insert raises
  \<open>unique_violation\<close> and \<open>createClaim\<close> stops at its check.
\<close>

theorem claim_pair_unique_example:
  "claims (run lower_C empty_db example_requests) = [bobs_claim]
   \<and> distinct (map claim_pair (claims (run lower_C empty_db example_requests)))
   \<and> insert_claim example_db (signed_in bob) bobs_second_claim = Inl unique_violation
   \<and> createClaim example_db (Some bob) backpack_id (Some ''Mine, really'') (c_id bobs_second_claim)
       = (example_db, Some \<lparr>t_title = ''Already Claimed'',
                            t_description = ''You have already submitted a claim for this item''\<rparr>)"
proof -
  have pair: "claim_pair bobs_second_claim \<in> set (map claim_pair (claims example_db))"
    by (simp add: claim_pair_def bobs_second_claim_def example_db_def bobs_claim_def)
  have pol: "claims_insert_policy example_db (signed_in bob) bobs_second_claim"
    by (simp add: claims_insert_policy_def users_can_create_claims_def signed_in_def bobs_second_claim_def)
  have dist: "distinct (map claim_pair (claims example_db))"
    by (simp add: example_db_def)
  have ex: "\<exists>x \<in> set (claims example_db). c_item_id x = backpack_id \<and> c_claimant_id x = bob"
    by (simp add: example_db_def bobs_claim_def)
  from claim_pair_unique [of lower_C example_requests bobs_second_claim example_db "signed_in bob" backpack_id bob
      "Some ''Mine, really''" "c_id bobs_second_claim"] pair pol dist ex example_run_claims
  show ?thesis by simp
qed

lemma no_claim_on_deleted_item: "single (own_claims_on example_db bob deleted_item_id) = None"
  by code_simp

lemma claim_on_deleted_item_fails:
  "insert_claim example_db (signed_in bob)
     (new_claim (c_id bobs_second_claim) deleted_item_id bob ''That is mine'') = Inl foreign_key_violation"
  by code_simp

text \<open>
  C10, witness: Bob claims an item that has been deleted; the insert violates the foreign
  key, and the state stays as it was.
\<close>

theorem createClaim_insert_error_example:
  "insert_claim example_db (signed_in bob)
     (new_claim (c_id bobs_second_claim) deleted_item_id bob ''That is mine'') = Inl foreign_key_violation
   \<and> createClaim example_db (Some bob) deleted_item_id (Some ''That is mine'') (c_id bobs_second_claim)
       = (example_db, Some \<lparr>t_title = ''Error'', t_description = ''Failed to submit claim''\<rparr>)
   \<and> \<not> (\<exists>x \<in> set (claims example_db). c_item_id x = deleted_item_id \<and> c_claimant_id x = bob)
   \<and> notifications example_db = []"
proof -
  have "''That is mine'' \<noteq> []" by simp
  moreover have "distinct (map claim_pair (claims example_db))" by (simp add: example_db_def)
  moreover have "notifications example_db = []" by (simp add: example_db_def)
  ultimately show ?thesis
    using createClaim_insert_error [of example_db bob deleted_item_id "''That is mine''"
        "c_id bobs_second_claim" foreign_key_violation]
      no_claim_on_deleted_item claim_on_deleted_item_fails
    by blast
qed


lemma admin_update_claim_status:
  assumes "constraints_hold d" "get_user_role d (auth_uid c) = Some Admin"
  shows "update_claims d c (\<lambda>r. c_id r = claimId) (\<lambda>r. r\<lparr>c_status := Some st\<rparr>)
         = Inr (d\<lparr>claims := map (\<lambda>r. if c_id r = claimId then r\<lparr>c_status := Some st\<rparr> else r) (claims d)\<rparr>)"
proof -
  have adm: "claims_select_policy d c r" "claims_update_policy d c r" for r
    using assms(2) by (simp_all add: claims_select_policy_def claims_update_policy_def admins_can_manage_all_claims_def)
  define new where "new = map (\<lambda>r. if c_id r = claimId then r\<lparr>c_status := Some st\<rparr> else r) (claims d)"
  have ids: "map c_id new = map c_id (claims d)" and pairs: "map claim_pair new = map claim_pair (claims d)"
    by (simp_all add: new_def claim_pair_def)
  have fk: "\<forall>r \<in> set new. c_item_id r \<in> set (map i_id (items d)) \<and> c_claimant_id r \<in> set (users d)"
    using assms(1) by (auto simp: new_def constraints_hold_def)
  have "distinct (map c_id new)" "distinct (map claim_pair new)"
    using assms(1) by (simp_all add: ids pairs constraints_hold_def)
  with fk show ?thesis
    unfolding update_claims_def Let_def by (simp add: adm new_def [symmetric])
qed

lemma admin_update_item_status:
  assumes "constraints_hold d" "get_user_role d (auth_uid c) = Some Admin"
  shows "update_items d c (\<lambda>i. i_id i = k) (\<lambda>i. i\<lparr>i_status := Some st\<rparr>)
         = Inr (d\<lparr>items := map (\<lambda>i. if i_id i = k then i\<lparr>i_status := Some st\<rparr> else i) (items d)\<rparr>)"
proof -
  have adm: "items_select_policy d c r" "items_update_policy d c r" for r
    using assms(2) by (simp_all add: items_select_policy_def items_update_policy_def admins_can_manage_all_items_def)
  define new where "new = map (\<lambda>i. if i_id i = k then i\<lparr>i_status := Some st\<rparr> else i) (items d)"
  have ids: "map i_id new = map i_id (items d)"
    by (simp add: new_def)
  have fk: "\<forall>r \<in> set new. i_user_id r \<in> set (users d)"
    using assms(1) by (auto simp: new_def constraints_hold_def)
  have refs: "\<forall>cl \<in> set (claims d). c_item_id cl \<in> set (map i_id new)"
    "\<forall>m \<in> set (messages d). m_item_id m \<in> set (map i_id new)"
    using assms(1) unfolding ids by (simp_all add: constraints_hold_def)
  have "distinct (map i_id new)"
    using assms(1) by (simp add: ids constraints_hold_def)
  with fk refs show ?thesis
    unfolding update_items_def Let_def by (simp add: adm new_def [symmetric])
qed

lemma get_user_role_cong: "profiles d' = profiles d \<Longrightarrow> get_user_role d' u = get_user_role d u"
  by (cases u) (simp_all add: get_user_role_def)

lemma updateClaimStatus_items_unchanged:
  assumes "status \<noteq> Approved"
  shows "items (fst (updateClaimStatus d c cached claimId status)) = items d"
proof (cases "update_claims d c (\<lambda>r. c_id r = claimId) (\<lambda>r. r\<lparr>c_status := Some status\<rparr>)")
  case (Inl e)
  then show ?thesis by (simp add: updateClaimStatus_def)
next
  case (Inr d1)
  from update_claims_Inr [OF Inr] have "items d1 = items d" by auto
  with Inr assms show ?thesis by (simp add: updateClaimStatus_def)
qed

lemma non_admin_cannot_claim_item:
  assumes "get_user_role d (auth_uid c) \<noteq> Some Admin"
    and "update_items d c wh (\<lambda>i. i\<lparr>i_status := Some Claimed\<rparr>) = Inr d'"
  shows "d' = d"
proof -
  define hit where "hit = (\<lambda>r. wh r \<and> items_select_policy d c r \<and> items_update_policy d c r)"
  have hidden: "\<not> items_select_policy d c (r\<lparr>i_status := Some Claimed\<rparr>)" for r
    using assms(1)
    by (simp add: items_select_policy_def anyone_can_view_active_items_def admins_can_manage_all_items_def)
  from assms(2) have
    "\<not> (\<exists>r \<in> set (items d). hit r \<and>
          \<not> (items_update_policy d c (r\<lparr>i_status := Some Claimed\<rparr>)
              \<and> items_select_policy d c (r\<lparr>i_status := Some Claimed\<rparr>)))"
    and d': "d' = d\<lparr>items := map (\<lambda>r. if hit r then r\<lparr>i_status := Some Claimed\<rparr> else r) (items d)\<rparr>"
    unfolding update_items_def Let_def hit_def [symmetric]
    by (simp_all split: if_splits)
  with hidden have "\<forall>r \<in> set (items d). \<not> hit r" by blast
  then have "map (\<lambda>r. if hit r then r\<lparr>i_status := Some Claimed\<rparr> else r) (items d) = items d"
    by (intro map_idI) simp
  with d' show ?thesis by simp
qed

lemma non_admin_approval_keeps_items:
  assumes "get_user_role d (auth_uid c) \<noteq> Some Admin"
  shows "items (fst (updateClaimStatus d c cached claimId status)) = items d"
proof (cases "update_claims d c (\<lambda>r. c_id r = claimId) (\<lambda>r. r\<lparr>c_status := Some status\<rparr>)")
  case (Inl e)
  then show ?thesis by (simp add: updateClaimStatus_def)
next
  case (Inr d1)
  from update_claims_Inr [OF Inr] have same: "items d1 = items d" "profiles d1 = profiles d" by auto
  from same(2) assms have role: "get_user_role d1 (auth_uid c) \<noteq> Some Admin"
    using get_user_role_cong [of d1 d "auth_uid c"] by simp
  show ?thesis
  proof (cases "status = Approved")
    case False
    with Inr same(1) show ?thesis by (simp add: updateClaimStatus_def)
  next
    case True
    show ?thesis
    proof (cases "find (\<lambda>cl. c_id cl = claimId) cached")
      case None
      with Inr True same(1) show ?thesis by (simp add: updateClaimStatus_def)
    next
      case (Some cl)
      show ?thesis
      proof (cases "update_items d1 c (\<lambda>i. i_id i = c_item_id cl) (\<lambda>i. i\<lparr>i_status := Some Claimed\<rparr>)")
        case (Inl e)
        with Inr True Some same(1) show ?thesis by (simp add: updateClaimStatus_def)
      next
        case u2: (Inr d2)
        from non_admin_cannot_claim_item [OF role u2] have "d2 = d1" .
        with Inr True Some u2 same(1) show ?thesis by (simp add: updateClaimStatus_def)
      qed
    qed
  qed
qed

lemma owner_update_claim_status:
  assumes "constraints_hold d" "r \<in> set (claims d)" "c_id r = claimId"
    and "i \<in> set (items d)" "i_id i = c_item_id r" "auth_uid c = Some (i_user_id i)"
      "i_status i = Some Active"
  shows "update_claims d c (\<lambda>r. c_id r = claimId) (\<lambda>r. r\<lparr>c_status := Some st\<rparr>)
         = Inr (d\<lparr>claims := map (\<lambda>r. if c_id r = claimId then r\<lparr>c_status := Some st\<rparr> else r) (claims d)\<rparr>)"
proof -
  define hit where "hit = (\<lambda>x. c_id x = claimId \<and> claims_select_policy d c x \<and> claims_update_policy d c x)"
  define new where "new = map (\<lambda>r. if c_id r = claimId then r\<lparr>c_status := Some st\<rparr> else r) (claims d)"
  have "i \<in> set (select_items d c)"
    using assms(4,7) by (simp add: select_items_def items_select_policy_def anyone_can_view_active_items_def)
  with assms(5,6) have own: "\<exists>i \<in> set (select_items d c). i_id i = c_item_id r \<and> auth_uid c = Some (i_user_id i)"
    by blast
  then have pol: "claims_select_policy d c r" "claims_update_policy d c r"
    by (simp_all add: claims_select_policy_def claims_update_policy_def
        users_can_view_claims_for_their_items_def item_owners_can_update_claims_def)
  have kept: "claims_select_policy d c (x\<lparr>c_status := Some st\<rparr>) = claims_select_policy d c x"
    "claims_update_policy d c (x\<lparr>c_status := Some st\<rparr>) = claims_update_policy d c x" for x
    by (simp_all add: claims_select_policy_def claims_update_policy_def
        users_can_view_claims_for_their_items_def item_owners_can_update_claims_def)
  have only: "x = r" if "x \<in> set (claims d)" "c_id x = claimId" for x
  proof -
    from assms(1) have "inj_on c_id (set (claims d))"
      by (simp add: constraints_hold_def distinct_map)
    with that assms(2,3) show ?thesis by (auto dest: inj_onD)
  qed
  have hit: "hit x = (c_id x = claimId)" if "x \<in> set (claims d)" for x
    using only [OF that] pol by (auto simp: hit_def)
  then have new_hit: "map (\<lambda>r. if hit r then r\<lparr>c_status := Some st\<rparr> else r) (claims d) = new"
    unfolding new_def by (intro map_cong refl) simp
  have ok: "\<not> (\<exists>r \<in> set (claims d). hit r \<and>
              \<not> (claims_update_policy d c (r\<lparr>c_status := Some st\<rparr>)
                  \<and> claims_select_policy d c (r\<lparr>c_status := Some st\<rparr>)))"
    by (auto simp: kept hit_def)
  have ids: "map c_id new = map c_id (claims d)" and pairs: "map claim_pair new = map claim_pair (claims d)"
    by (simp_all add: new_def claim_pair_def)
  have fk: "\<forall>r \<in> set new. c_item_id r \<in> set (map i_id (items d)) \<and> c_claimant_id r \<in> set (users d)"
    using assms(1) by (auto simp: new_def constraints_hold_def)
  have "distinct (map c_id new)" "distinct (map claim_pair new)"
    using assms(1) by (simp_all add: ids pairs constraints_hold_def)
  with fk ok show ?thesis
    unfolding update_claims_def Let_def hit_def [symmetric] new_hit new_def [symmetric]
    by simp
qed

lemma owner_approval:
  assumes "constraints_hold d" "get_user_role d (auth_uid c) \<noteq> Some Admin"
    and "r \<in> set (claims d)" "c_id r = claimId"
    and "i \<in> set (items d)" "i_id i = c_item_id r" "auth_uid c = Some (i_user_id i)"
      "i_status i = Some Active"
  shows "updateClaimStatus d c cached claimId Approved
         = (d\<lparr>claims := map (\<lambda>x. if c_id x = claimId then x\<lparr>c_status := Some Approved\<rparr> else x) (claims d)\<rparr>,
            \<lparr>t_title = ''Success'', t_description = ''Claim approved successfully''\<rparr>)"
proof -
  define d1 where "d1 = d\<lparr>claims := map (\<lambda>x. if c_id x = claimId then x\<lparr>c_status := Some Approved\<rparr> else x) (claims d)\<rparr>"
  have u1: "update_claims d c (\<lambda>r. c_id r = claimId) (\<lambda>r. r\<lparr>c_status := Some Approved\<rparr>) = Inr d1"
    unfolding d1_def using assms(1,3-8) by (rule owner_update_claim_status)
  have "profiles d1 = profiles d" by (simp add: d1_def)
  with assms(2) have role: "get_user_role d1 (auth_uid c) \<noteq> Some Admin"
    using get_user_role_cong [of d1 d "auth_uid c"] by simp
  have "fst (updateClaimStatus d c cached claimId Approved) = d1"
  proof (cases "find (\<lambda>cl. c_id cl = claimId) cached")
    case None
    with u1 show ?thesis by (simp add: updateClaimStatus_def)
  next
    case (Some cl)
    show ?thesis
    proof (cases "update_items d1 c (\<lambda>i. i_id i = c_item_id cl) (\<lambda>i. i\<lparr>i_status := Some Claimed\<rparr>)")
      case (Inl e)
      with u1 Some show ?thesis by (simp add: updateClaimStatus_def)
    next
      case u2: (Inr d2)
      from non_admin_cannot_claim_item [OF role u2] have "d2 = d1" .
      with u1 Some u2 show ?thesis by (simp add: updateClaimStatus_def)
    qed
  qed
  moreover have "snd (updateClaimStatus d c cached claimId Approved)
      = \<lparr>t_title = ''Success'', t_description = ''Claim approved successfully''\<rparr>"
    using u1 by (simp add: updateClaimStatus_def claim_status_text_def Let_def)
  ultimately show ?thesis
    unfolding d1_def by (simp add: prod_eq_iff)
qed

subsection \<open>Approving a claim\<close>

text \<open>
  C4 (as amended). \<open>updateClaimStatus\<close> with \<open>approved\<close>, in a state that meets the schema's
  constraints, for a claim of the table that the component has loaded. Called by an admin:
  the claim gets the status approved, and the claim's item gets the status claimed (the
  other items stay as they are). Called by anyone who is not an admin: the items are
  unchanged, whatever happens to the claim; and when that caller is the owner of the
  claim's item and the item is active, the claim gets the status approved, nothing else
  changes, and the function reports success. With \<open>rejected\<close> or \<open>pending\<close>, for any caller
  and state, the items are unchanged.
\<close>

theorem approving_claim_claims_item:
  "(constraints_hold d \<and> get_user_role d (auth_uid c) = Some Admin
      \<and> r \<in> set (claims d) \<and> c_id r = claimId
      \<and> find (\<lambda>cl. c_id cl = claimId) cached = Some cl \<and> c_item_id cl = c_item_id r \<longrightarrow>
      claims (fst (updateClaimStatus d c cached claimId Approved))
        = map (\<lambda>x. if c_id x = claimId then x\<lparr>c_status := Some Approved\<rparr> else x) (claims d)
      \<and> items (fst (updateClaimStatus d c cached claimId Approved))
        = map (\<lambda>i. if i_id i = c_item_id r then i\<lparr>i_status := Some Claimed\<rparr> else i) (items d)
      \<and> (\<exists>i \<in> set (items (fst (updateClaimStatus d c cached claimId Approved))).
            i_id i = c_item_id r \<and> i_status i = Some Claimed))
   \<and> (get_user_role d (auth_uid c) \<noteq> Some Admin \<longrightarrow>
        items (fst (updateClaimStatus d c cached claimId Approved)) = items d)
   \<and> (constraints_hold d \<and> get_user_role d (auth_uid c) \<noteq> Some Admin
      \<and> r \<in> set (claims d) \<and> c_id r = claimId
      \<and> (\<exists>i \<in> set (items d). i_id i = c_item_id r \<and> auth_uid c = Some (i_user_id i)
            \<and> i_status i = Some Active) \<longrightarrow>
      updateClaimStatus d c cached claimId Approved
        = (d\<lparr>claims := map (\<lambda>x. if c_id x = claimId then x\<lparr>c_status := Some Approved\<rparr> else x) (claims d)\<rparr>,
           \<lparr>t_title = ''Success'', t_description = ''Claim approved successfully''\<rparr>))
   \<and> (status \<noteq> Approved \<longrightarrow> items (fst (updateClaimStatus d c cached claimId status)) = items d)"
proof (intro conjI impI)
  assume "status \<noteq> Approved"
  then show "items (fst (updateClaimStatus d c cached claimId status)) = items d"
    by (rule updateClaimStatus_items_unchanged)
next
  assume "get_user_role d (auth_uid c) \<noteq> Some Admin"
  then show "items (fst (updateClaimStatus d c cached claimId Approved)) = items d"
    by (rule non_admin_approval_keeps_items)
next
  assume a: "constraints_hold d \<and> get_user_role d (auth_uid c) \<noteq> Some Admin
      \<and> r \<in> set (claims d) \<and> c_id r = claimId
      \<and> (\<exists>i \<in> set (items d). i_id i = c_item_id r \<and> auth_uid c = Some (i_user_id i)
            \<and> i_status i = Some Active)"
  then obtain i where "i \<in> set (items d)" "i_id i = c_item_id r" "auth_uid c = Some (i_user_id i)"
    "i_status i = Some Active" by blast
  with a show "updateClaimStatus d c cached claimId Approved
        = (d\<lparr>claims := map (\<lambda>x. if c_id x = claimId then x\<lparr>c_status := Some Approved\<rparr> else x) (claims d)\<rparr>,
           \<lparr>t_title = ''Success'', t_description = ''Claim approved successfully''\<rparr>)"
    by (intro owner_approval [of d c r claimId i]) simp_all
next
  assume a: "constraints_hold d \<and> get_user_role d (auth_uid c) = Some Admin
      \<and> r \<in> set (claims d) \<and> c_id r = claimId
      \<and> find (\<lambda>cl. c_id cl = claimId) cached = Some cl \<and> c_item_id cl = c_item_id r"
  define d1 where "d1 = d\<lparr>claims := map (\<lambda>x. if c_id x = claimId then x\<lparr>c_status := Some Approved\<rparr> else x) (claims d)\<rparr>"
  from a have u1: "update_claims d c (\<lambda>r. c_id r = claimId) (\<lambda>r. r\<lparr>c_status := Some Approved\<rparr>) = Inr d1"
    by (simp add: admin_update_claim_status d1_def)
  have "constraints_hold d1"
    using a u1 by (auto intro: update_claims_preserves)
  moreover have "get_user_role d1 (auth_uid c) = Some Admin"
    using a get_user_role_cong [of d1 d "auth_uid c"] by (simp add: d1_def)
  ultimately have u2: "update_items d1 c (\<lambda>i. i_id i = c_item_id r) (\<lambda>i. i\<lparr>i_status := Some Claimed\<rparr>)
      = Inr (d1\<lparr>items := map (\<lambda>i. if i_id i = c_item_id r then i\<lparr>i_status := Some Claimed\<rparr> else i) (items d1)\<rparr>)"
    by (rule admin_update_item_status)
  have res: "fst (updateClaimStatus d c cached claimId Approved)
      = d1\<lparr>items := map (\<lambda>i. if i_id i = c_item_id r then i\<lparr>i_status := Some Claimed\<rparr> else i) (items d1)\<rparr>"
    using a u1 u2 by (simp add: updateClaimStatus_def)
  show "claims (fst (updateClaimStatus d c cached claimId Approved))
        = map (\<lambda>x. if c_id x = claimId then x\<lparr>c_status := Some Approved\<rparr> else x) (claims d)"
    by (simp add: res d1_def)
  show items: "items (fst (updateClaimStatus d c cached claimId Approved))
        = map (\<lambda>i. if i_id i = c_item_id r then i\<lparr>i_status := Some Claimed\<rparr> else i) (items d)"
    by (simp add: res d1_def)
  from a have "c_item_id r \<in> set (map i_id (items d))"
    by (auto simp: constraints_hold_def)
  then obtain i where "i \<in> set (items d)" "i_id i = c_item_id r" by auto
  then have "i\<lparr>i_status := Some Claimed\<rparr> \<in> set (items (fst (updateClaimStatus d c cached claimId Approved)))"
    unfolding items by (auto simp: image_iff intro!: bexI [of _ i])
  with \<open>i_id i = c_item_id r\<close>
  show "\<exists>i \<in> set (items (fst (updateClaimStatus d c cached claimId Approved))).
            i_id i = c_item_id r \<and> i_status i = Some Claimed"
    by (intro bexI [of _ "i\<lparr>i_status := Some Claimed\<rparr>"]) simp_all
qed

lemma example_constraints: "constraints_hold example_db"
  by code_simp

text \<open>
  C4, witness: Carol, an admin, approves Bob's claim: the backpack becomes claimed; had
  she rejected it, the items would be as before. Alice, the backpack's owner and not an
  admin, approves it: the claim is approved and the items are as before.
\<close>

theorem approving_claim_example:
  "map i_status (items example_db) = [Some Active, Some Claimed]
   \<and> map c_status (claims (fst (updateClaimStatus example_db (signed_in carol) [bobs_claim] (c_id bobs_claim) Approved)))
       = [Some Approved]
   \<and> items (fst (updateClaimStatus example_db (signed_in carol) [bobs_claim] (c_id bobs_claim) Approved))
       = [backpack\<lparr>i_status := Some Claimed\<rparr>, umbrella]
   \<and> items (fst (updateClaimStatus example_db (signed_in carol) [bobs_claim] (c_id bobs_claim) Rejected))
       = [backpack, umbrella]
   \<and> updateClaimStatus example_db (signed_in alice) [bobs_claim] (c_id bobs_claim) Approved
       = (example_db\<lparr>claims := [bobs_claim\<lparr>c_status := Some Approved\<rparr>]\<rparr>,
          \<lparr>t_title = ''Success'', t_description = ''Claim approved successfully''\<rparr>)"
proof -
  have admin: "get_user_role example_db (auth_uid (signed_in carol)) = Some Admin"
    and user: "get_user_role example_db (auth_uid (signed_in alice)) \<noteq> Some Admin"
    by (simp_all add: signed_in_def example_roles)
  have claim: "bobs_claim \<in> set (claims example_db)" by (simp add: example_db_def)
  have cached: "find (\<lambda>cl. c_id cl = c_id bobs_claim) [bobs_claim] = Some bobs_claim" by simp
  have owner: "\<exists>i \<in> set (items example_db). i_id i = c_item_id bobs_claim
      \<and> auth_uid (signed_in alice) = Some (i_user_id i) \<and> i_status i = Some Active"
    by (simp add: example_db_def backpack_def bobs_claim_def signed_in_def)
  have "Rejected \<noteq> Approved" by simp
  with admin claim cached have by_admin:
    "map c_status (claims (fst (updateClaimStatus example_db (signed_in carol) [bobs_claim] (c_id bobs_claim) Approved)))
       = [Some Approved]
     \<and> items (fst (updateClaimStatus example_db (signed_in carol) [bobs_claim] (c_id bobs_claim) Approved))
       = [backpack\<lparr>i_status := Some Claimed\<rparr>, umbrella]
     \<and> items (fst (updateClaimStatus example_db (signed_in carol) [bobs_claim] (c_id bobs_claim) Rejected))
       = [backpack, umbrella]"
    using approving_claim_claims_item [of example_db "signed_in carol" bobs_claim "c_id bobs_claim"
        "[bobs_claim]" bobs_claim Rejected] example_constraints
    by (simp add: example_db_def backpack_def umbrella_def bobs_claim_def example_ids_distinct)
  from user claim owner have by_owner:
    "updateClaimStatus example_db (signed_in alice) [bobs_claim] (c_id bobs_claim) Approved
       = (example_db\<lparr>claims := [bobs_claim\<lparr>c_status := Some Approved\<rparr>]\<rparr>,
          \<lparr>t_title = ''Success'', t_description = ''Claim approved successfully''\<rparr>)"
    using approving_claim_claims_item [of example_db "signed_in alice" bobs_claim "c_id bobs_claim"
        "[bobs_claim]" bobs_claim Rejected] example_constraints
    by (simp add: example_db_def)
  have "map i_status (items example_db) = [Some Active, Some Claimed]"
    by (simp add: example_db_def backpack_def umbrella_def)
  with by_admin by_owner show ?thesis by simp
qed

text \<open>
  C4, as the claim states it, fails for a caller who is not an admin. Alice owns the
  backpack, so the policy "Item owners can update claims" lets her approve Bob's claim on
  it. \<open>updateClaimStatus\<close> then approves the claim and reports success, but its update of
  the item is refused (Alice could not read the row once it is claimed) and only logged:
  the backpack stays active.
\<close>

theorem owner_approval_leaves_item_active:
  "get_user_role example_db (auth_uid (signed_in alice)) = Some User
   \<and> claims_update_policy example_db (signed_in alice) bobs_claim
   \<and> c_item_id bobs_claim = i_id backpack
   \<and> map c_status (claims (fst (updateClaimStatus example_db (signed_in alice) [bobs_claim] (c_id bobs_claim) Approved)))
       = [Some Approved]
   \<and> items (fst (updateClaimStatus example_db (signed_in alice) [bobs_claim] (c_id bobs_claim) Approved))
       = [backpack, umbrella]
   \<and> i_status backpack = Some Active
   \<and> update_items (example_db\<lparr>claims := [bobs_claim\<lparr>c_status := Some Approved\<rparr>]\<rparr>) (signed_in alice)
         (\<lambda>i. i_id i = backpack_id) (\<lambda>i. i\<lparr>i_status := Some Claimed\<rparr>)
       = Inl insufficient_privilege
   \<and> snd (updateClaimStatus example_db (signed_in alice) [bobs_claim] (c_id bobs_claim) Approved)
       = \<lparr>t_title = ''Success'', t_description = ''Claim approved successfully''\<rparr>"
  by code_simp

section \<open>Proofs: writes to items\<close>

lemma update_items_items:
  assumes "update_items d c wh upd = Inr d'"
  shows "items d' = map (\<lambda>r. if wh r \<and> items_select_policy d c r \<and> items_update_policy d c r
                             then upd r else r) (items d)"
  using assms unfolding update_items_def Let_def by (auto split: if_splits)

lemma delete_items_items:
  assumes "delete_items d c wh = Inr d'"
  shows "set (items d') \<subseteq> set (items d)"
  using assms unfolding delete_items_def Let_def by auto

lemma insert_item_items:
  assumes "insert_item d c ret r = Inr d'"
  shows "items d' = items d @ [r]"
  using assms by (auto simp: insert_item_def split: if_splits)

lemma other_tables_keep_items:
  assumes "\<not> is_items_statement rq" "perform lower d rq = Inr d'"
  shows "items d' = items d"
proof (cases rq)
  case (SignUp new)
  with assms(2) show ?thesis
    by (auto simp: on_auth_user_created_def split: if_splits sum.splits)
next
  case (InsertClaim c r)
  with assms(2) show ?thesis by (auto dest: insert_claim_Inr)
next
  case (UpdateClaims c wh upd)
  with assms(2) show ?thesis by (auto dest: update_claims_Inr)
next
  case (DeleteClaims c wh)
  with assms(2) show ?thesis by (auto simp: delete_claims_def Let_def)
next
  case (InsertMessage c r)
  with assms(2) show ?thesis
    by (auto simp: insert_message_def create_message_notification_def notifications_add_def Let_def
        split: if_splits)
next
  case (InsertNotification c r)
  with assms(2) show ?thesis
    by (auto simp: insert_notification_def notifications_add_def split: if_splits)
qed (use assms(1) in simp_all)

lemma map_if_preserves:
  assumes "\<forall>x \<in> set xs. Q x" "\<And>x. Q x \<Longrightarrow> Q (f x)"
  shows "\<forall>y \<in> set (map (\<lambda>r. if P r then f r else r) xs). Q y"
  using assms by auto

lemma update_items_preserves_rows:
  assumes "update_items d c wh upd = Inr d'" "\<forall>x \<in> set (items d). Q x" "\<And>x. Q x \<Longrightarrow> Q (upd x)"
  shows "\<forall>y \<in> set (items d'). Q y"
  unfolding update_items_items [OF assms(1)] using assms(2,3) by (rule map_if_preserves)

lemma delete_items_preserves_rows:
  assumes "delete_items d c wh = Inr d'" "\<forall>x \<in> set (items d). Q x"
  shows "\<forall>y \<in> set (items d'). Q y"
  using delete_items_items [OF assms(1)] assms(2) by blast

lemma item_write_keeps_kind:
  assumes "perform lower d (item_write_request w) = Inr d'" "\<not> reports_id k (item_write_request w)"
    and "\<forall>i \<in> set (items d). i_id i = k \<longrightarrow> i_type i = t"
  shows "\<forall>i \<in> set (items d'). i_id i = k \<longrightarrow> i_type i = t"
proof (cases w)
  case (ReportItem new_id uid title description category location type tags imageUrl)
  with assms(1) have "\<exists>r. items d' = items d @ [r] \<and> i_id r = new_id"
    by (auto dest: insert_item_items)
  with assms(2,3) ReportItem show ?thesis by auto
next
  case (UpdateItemStatus c itemId status)
  with assms(1) have "update_items d c (\<lambda>i. i_id i = itemId) (\<lambda>i. i\<lparr>i_status := Some status\<rparr>) = Inr d'"
    by simp
  from this assms(3) show ?thesis by (rule update_items_preserves_rows) simp
next
  case (EditItem c itemId title description location)
  with assms(1) have "update_items d c (\<lambda>i. i_id i = itemId)
      (\<lambda>i. i\<lparr>i_title := title, i_description := description, i_location := location\<rparr>) = Inr d'"
    by simp
  from this assms(3) show ?thesis by (rule update_items_preserves_rows) simp
next
  case (DeleteItem c itemId)
  with assms(1) have "delete_items d c (\<lambda>i. i_id i = itemId) = Inr d'" by simp
  from this assms(3) show ?thesis by (rule delete_items_preserves_rows)
next
  case (DeleteUserItems c userId)
  with assms(1) have "delete_items d c (\<lambda>i. i_user_id i = userId) = Inr d'" by simp
  from this assms(3) show ?thesis by (rule delete_items_preserves_rows)
qed

lemma item_write_keeps_status:
  assumes "perform lower d (item_write_request w) = Inr d'"
    and "\<forall>i \<in> set (items d). i_status i \<in> {Some Active, Some Claimed, Some Archived}"
  shows "\<forall>i \<in> set (items d'). i_status i \<in> {Some Active, Some Claimed, Some Archived}"
proof (cases w)
  case (ReportItem new_id uid title description category location type tags imageUrl)
  with assms(1) have "\<exists>r. items d' = items d @ [r] \<and> i_status r = Some Active"
    by (auto dest: insert_item_items)
  with assms(2) show ?thesis by auto
next
  case (UpdateItemStatus c itemId status)
  have st: "Some status \<in> {Some Active, Some Claimed, Some Archived}" by (cases status) simp_all
  from UpdateItemStatus assms(1)
  have "update_items d c (\<lambda>i. i_id i = itemId) (\<lambda>i. i\<lparr>i_status := Some status\<rparr>) = Inr d'"
    by simp
  from this assms(2) show ?thesis by (rule update_items_preserves_rows) (use st in simp)
next
  case (EditItem c itemId title description location)
  with assms(1) have "update_items d c (\<lambda>i. i_id i = itemId)
      (\<lambda>i. i\<lparr>i_title := title, i_description := description, i_location := location\<rparr>) = Inr d'"
    by simp
  from this assms(2) show ?thesis by (rule update_items_preserves_rows) simp
next
  case (DeleteItem c itemId)
  with assms(1) have "delete_items d c (\<lambda>i. i_id i = itemId) = Inr d'" by simp
  from this assms(2) show ?thesis by (rule delete_items_preserves_rows)
next
  case (DeleteUserItems c userId)
  with assms(1) have "delete_items d c (\<lambda>i. i_user_id i = userId) = Inr d'" by simp
  from this assms(2) show ?thesis by (rule delete_items_preserves_rows)
qed

lemma application_request_item_write: "application_request (item_write_request w)"
  unfolding application_request_def by blast

lemma exec_keeps_kind:
  assumes "application_request rq" "\<not> reports_id k rq"
    and "\<forall>i \<in> set (items d). i_id i = k \<longrightarrow> i_type i = t"
  shows "\<forall>i \<in> set (items (exec lower d rq)). i_id i = k \<longrightarrow> i_type i = t"
proof (cases "perform lower d rq")
  case (Inl e)
  with assms(3) show ?thesis by (simp add: exec_def)
next
  case (Inr d')
  then have ex: "exec lower d rq = d'" by (simp add: exec_def)
  from assms(1) consider w where "rq = item_write_request w" | "\<not> is_items_statement rq"
    by (auto simp: application_request_def)
  then show ?thesis
  proof cases
    case 1
    with Inr assms(2,3) show ?thesis unfolding ex by (intro item_write_keeps_kind [of lower d w d' k t]) simp_all
  next
    case 2
    with Inr assms(3) show ?thesis unfolding ex by (simp add: other_tables_keep_items)
  qed
qed

lemma exec_keeps_status:
  assumes "application_request rq"
    and "\<forall>i \<in> set (items d). i_status i \<in> {Some Active, Some Claimed, Some Archived}"
  shows "\<forall>i \<in> set (items (exec lower d rq)). i_status i \<in> {Some Active, Some Claimed, Some Archived}"
proof (cases "perform lower d rq")
  case (Inl e)
  with assms(2) show ?thesis by (simp add: exec_def)
next
  case (Inr d')
  then have ex: "exec lower d rq = d'" by (simp add: exec_def)
  from assms(1) consider w where "rq = item_write_request w" | "\<not> is_items_statement rq"
    by (auto simp: application_request_def)
  then show ?thesis
  proof cases
    case 1
    with Inr assms(2) show ?thesis unfolding ex by (intro item_write_keeps_status [of lower d w d']) simp_all
  next
    case 2
    with Inr assms(2) show ?thesis unfolding ex by (simp add: other_tables_keep_items)
  qed
qed

lemma run_keeps_kind:
  assumes "\<forall>rq \<in> set rqs. application_request rq \<and> \<not> reports_id k rq"
    and "\<forall>i \<in> set (items d). i_id i = k \<longrightarrow> i_type i = t"
  shows "\<forall>i \<in> set (items (run lower d rqs)). i_id i = k \<longrightarrow> i_type i = t"
  using assms unfolding run_def
proof (induction rqs arbitrary: d)
  case Nil
  then show ?case by simp
next
  case (Cons rq rqs)
  have "\<forall>i \<in> set (items (exec lower d rq)). i_id i = k \<longrightarrow> i_type i = t"
    using Cons.prems by (intro exec_keeps_kind) simp_all
  with Cons.IH [of "exec lower d rq"] Cons.prems(1) show ?case by simp
qed

lemma run_keeps_status:
  assumes "\<forall>rq \<in> set rqs. application_request rq"
    and "\<forall>i \<in> set (items d). i_status i \<in> {Some Active, Some Claimed, Some Archived}"
  shows "\<forall>i \<in> set (items (run lower d rqs)). i_status i \<in> {Some Active, Some Claimed, Some Archived}"
  using assms unfolding run_def
proof (induction rqs arbitrary: d)
  case Nil
  then show ?case by simp
next
  case (Cons rq rqs)
  have "\<forall>i \<in> set (items (exec lower d rq)). i_status i \<in> {Some Active, Some Claimed, Some Archived}"
    using Cons.prems by (intro exec_keeps_status) simp_all
  with Cons.IH [of "exec lower d rq"] Cons.prems(1) show ?case by simp
qed

subsection \<open>Kind and status of an item\<close>

text \<open>
  C6 (as amended). Along every sequence of requests whose statements on \<open>items\<close> are the
  application's own writes: as long as no row with key \<open>k\<close> is inserted, the rows with key
  \<open>k\<close> keep their kind; and when every status is one of active, claimed, archived at the
  start, it is so at the end. (The update policy itself does not restrict the columns: see
  the counterexample.)
\<close>

theorem application_writes_keep_kind_and_status:
  assumes "\<forall>rq \<in> set rqs. application_request rq"
  shows "((\<forall>rq \<in> set rqs. \<not> reports_id k rq) \<and> (\<forall>i \<in> set (items d). i_id i = k \<longrightarrow> i_type i = t) \<longrightarrow>
            (\<forall>i \<in> set (items (run lower d rqs)). i_id i = k \<longrightarrow> i_type i = t))
       \<and> ((\<forall>i \<in> set (items d). i_status i \<in> {Some Active, Some Claimed, Some Archived}) \<longrightarrow>
            (\<forall>i \<in> set (items (run lower d rqs)). i_status i \<in> {Some Active, Some Claimed, Some Archived}))"
  using assms run_keeps_kind [of rqs k d t] run_keeps_status [of rqs d] by blast

lemma example_item_writes_run:
  "map i_id (items (run lower_C example_db example_item_writes)) = [backpack_id, umbrella_id]
   \<and> map i_type (items (run lower_C example_db example_item_writes)) = [Found, Lost]
   \<and> map i_status (items (run lower_C example_db example_item_writes)) = [Some Archived, Some Claimed]
   \<and> map i_title (items (run lower_C example_db example_item_writes)) = [''Backpack'', ''Umbrella'']"
  by code_simp

text \<open>
  C6, witness: the admin console archives the backpack and edits its text; it stays a
  found item, and the statuses stay within the three values.
\<close>

theorem application_writes_example:
  "map i_id (items (run lower_C example_db example_item_writes)) = [backpack_id, umbrella_id]
   \<and> map i_status (items (run lower_C example_db example_item_writes)) = [Some Archived, Some Claimed]
   \<and> map i_title (items (run lower_C example_db example_item_writes)) = [''Backpack'', ''Umbrella'']
   \<and> \<not> (\<exists>i \<in> set (items (run lower_C example_db example_item_writes)). i_id i = backpack_id \<and> i_type i \<noteq> Found)
   \<and> \<not> (\<exists>i \<in> set (items (run lower_C example_db example_item_writes)).
           i_status i \<notin> {Some Active, Some Claimed, Some Archived})"
proof -
  have app: "\<forall>rq \<in> set example_item_writes. application_request rq"
    unfolding example_item_writes_def by (simp add: application_request_item_write del: item_write_request.simps)
  have norep: "\<forall>rq \<in> set example_item_writes. \<not> reports_id backpack_id rq"
    by (simp add: example_item_writes_def)
  have kind: "\<forall>i \<in> set (items example_db). i_id i = backpack_id \<longrightarrow> i_type i = Found"
    by (simp add: example_db_def backpack_def umbrella_def example_ids_distinct)
  have st: "\<forall>i \<in> set (items example_db). i_status i \<in> {Some Active, Some Claimed, Some Archived}"
    by (simp add: example_db_def backpack_def umbrella_def)
  from application_writes_keep_kind_and_status [OF app, of backpack_id example_db Found] norep kind st
    example_item_writes_run
  show ?thesis by blast
qed

text \<open>
  C6, counterexample to the claim as stated: the policies permit the backpack's owner to
  change its kind from found to lost, and to insert an item whose status is NULL.
\<close>

theorem policy_permits_kind_change:
  "i_type backpack = Found
   \<and> items (exec lower_C example_db relabel_backpack) = [backpack\<lparr>i_type := Lost\<rparr>, umbrella]
   \<and> items (exec lower_C example_db insert_statusless) = [backpack, umbrella, statusless_item]
   \<and> i_status statusless_item = None"
  by code_simp

section \<open>Proofs: conversations\<close>

subsection \<open>The grouping loop\<close>

lemma update_fresh: "k \<notin> fst ` set al \<Longrightarrow> AList.update k v al = al @ [(k, v)]"
  by (induction al) auto

lemma map_entry_keys: "distinct ks \<Longrightarrow>
  AList.map_entry k f (map (\<lambda>j. (j, g j)) ks) = map (\<lambda>j. (j, if j = k then f (g j) else g j)) ks"
proof (induction ks)
  case Nil
  then show ?case by simp
next
  case (Cons a ks)
  show ?case
  proof (cases "a = k")
    case True
    with Cons.prems have "\<forall>j \<in> set ks. j \<noteq> k" by auto
    then have "map (\<lambda>j. (j, if j = k then f (g j) else g j)) ks = map (\<lambda>j. (j, g j)) ks"
      by (intro map_cong) auto
    with True show ?thesis by simp
  next
    case False
    with Cons show ?thesis by simp
  qed
qed

lemma bucket_snoc_other:
  "conversationKey uid (msg e) \<noteq> k \<Longrightarrow> bucket_of uid (es @ [e]) k = bucket_of uid es k"
  by (simp add: bucket_of_def)

lemma bucket_snoc_same:
  assumes "conversationKey uid (msg e) \<in> (\<lambda>x. conversationKey uid (msg x)) ` set es"
  shows "bucket_of uid (es @ [e]) (conversationKey uid (msg e))
         = push_message uid e (bucket_of uid es (conversationKey uid (msg e)))"
proof -
  from assms have ne: "filter (\<lambda>x. conversationKey uid (msg x) = conversationKey uid (msg e)) es \<noteq> []"
    by (auto simp: filter_empty_conv)
  then show ?thesis
    by (simp add: bucket_of_def push_message_def Let_def unread_by_def not_read_def)
qed

lemma bucket_snoc_new:
  assumes "conversationKey uid (msg e) \<notin> (\<lambda>x. conversationKey uid (msg x)) ` set es"
  shows "bucket_of uid (es @ [e]) (conversationKey uid (msg e))
         = push_message uid e (new_conversation uid e)"
proof -
  from assms have "\<forall>x \<in> set es. conversationKey uid (msg x) \<noteq> conversationKey uid (msg e)"
    by (metis (mono_tags, lifting) image_eqI)
  then have "filter (\<lambda>x. conversationKey uid (msg x) = conversationKey uid (msg e)) es = []"
    by (simp add: filter_empty_conv)
  then show ?thesis
    by (simp add: bucket_of_def push_message_def Let_def unread_by_def not_read_def new_conversation_def)
qed

lemma add_message_step:
  assumes "distinct ks" "set ks = (\<lambda>x. conversationKey uid (msg x)) ` set es"
  shows "\<exists>ks'. distinct ks' \<and> set ks' = (\<lambda>x. conversationKey uid (msg x)) ` set (es @ [e])
           \<and> add_message uid (map (\<lambda>k. (k, bucket_of uid es k)) ks) e
               = map (\<lambda>k. (k, bucket_of uid (es @ [e]) k)) ks'"
proof (cases "conversationKey uid (msg e) \<in> set ks")
  case True
  let ?key = "conversationKey uid (msg e)"
  have "add_message uid (map (\<lambda>k. (k, bucket_of uid es k)) ks) e
        = map (\<lambda>j. (j, if j = ?key then push_message uid e (bucket_of uid es j) else bucket_of uid es j)) ks"
    using True assms(1) by (simp add: add_message_def Let_def map_entry_keys comp_def)
  also have "\<dots> = map (\<lambda>k. (k, bucket_of uid (es @ [e]) k)) ks"
  proof (intro map_cong refl)
    fix j assume "j \<in> set ks"
    show "(j, if j = ?key then push_message uid e (bucket_of uid es j) else bucket_of uid es j)
          = (j, bucket_of uid (es @ [e]) j)"
    proof (cases "j = ?key")
      case True
      with \<open>?key \<in> set ks\<close> assms(2) show ?thesis by (simp add: bucket_snoc_same)
    next
      case False
      then show ?thesis by (simp add: bucket_snoc_other)
    qed
  qed
  finally show ?thesis using True assms by (intro exI [of _ ks]) auto
next
  case False
  let ?key = "conversationKey uid (msg e)"
  have fresh: "?key \<notin> fst ` set (map (\<lambda>k. (k, bucket_of uid es k)) ks)"
    using False by (auto simp: image_iff)
  have "add_message uid (map (\<lambda>k. (k, bucket_of uid es k)) ks) e
        = AList.map_entry ?key (push_message uid e)
            (map (\<lambda>k. (k, bucket_of uid es k)) ks @ [(?key, new_conversation uid e)])"
    using False by (simp add: add_message_def Let_def update_fresh [OF fresh] comp_def)
  also have "\<dots> = AList.map_entry ?key (push_message uid e)
       (map (\<lambda>k. (k, if k = ?key then new_conversation uid e else bucket_of uid es k)) (ks @ [?key]))"
    using False by (auto intro!: arg_cong [where f = "AList.map_entry ?key (push_message uid e)"])
  also have "\<dots> = map (\<lambda>j. (j, if j = ?key
        then push_message uid e (if j = ?key then new_conversation uid e else bucket_of uid es j)
        else (if j = ?key then new_conversation uid e else bucket_of uid es j))) (ks @ [?key])"
    using False assms(1) by (intro map_entry_keys) simp
  also have "\<dots> = map (\<lambda>k. (k, bucket_of uid (es @ [e]) k)) (ks @ [?key])"
  proof (intro map_cong refl)
    fix j assume "j \<in> set (ks @ [?key])"
    show "(j, if j = ?key
        then push_message uid e (if j = ?key then new_conversation uid e else bucket_of uid es j)
        else (if j = ?key then new_conversation uid e else bucket_of uid es j))
          = (j, bucket_of uid (es @ [e]) j)"
    proof (cases "j = ?key")
      case True
      with False assms(2) show ?thesis by (simp add: bucket_snoc_new)
    next
      case False
      then show ?thesis by (simp add: bucket_snoc_other)
    qed
  qed
  finally show ?thesis using False assms by (intro exI [of _ "ks @ [?key]"]) auto
qed

lemma foldl_add_message:
  "\<exists>ks. distinct ks \<and> set ks = (\<lambda>x. conversationKey uid (msg x)) ` set es
        \<and> foldl (add_message uid) [] es = map (\<lambda>k. (k, bucket_of uid es k)) ks"
proof (induction es rule: rev_induct)
  case Nil
  show ?case by (intro exI [of _ "[]"]) simp
next
  case (snoc e es)
  then obtain ks where ks: "distinct ks" "set ks = (\<lambda>x. conversationKey uid (msg x)) ` set es"
    "foldl (add_message uid) [] es = map (\<lambda>k. (k, bucket_of uid es k)) ks"
    by blast
  from add_message_step [OF ks(1,2), of e] ks(3) show ?case by simp
qed

lemma build_conversations_structure:
  "\<exists>ks. distinct ks
     \<and> set ks = (\<lambda>x. conversationKey uid (msg x)) ` set (map (enrich itemsData profilesData) messagesData)
     \<and> build_conversations uid itemsData profilesData messagesData
         = sort_key (\<lambda>cv. - getTime (last_message_date cv))
             (map (sorted_bucket uid (map (enrich itemsData profilesData) messagesData)) ks)"
proof -
  let ?E = "map (enrich itemsData profilesData) messagesData"
  from foldl_add_message [of uid ?E] obtain ks where ks: "distinct ks"
    "set ks = (\<lambda>x. conversationKey uid (msg x)) ` set ?E"
    "foldl (add_message uid) [] ?E = map (\<lambda>k. (k, bucket_of uid ?E k)) ks"
    by blast
  have "build_conversations uid itemsData profilesData messagesData
         = sort_key (\<lambda>cv. - getTime (last_message_date cv)) (map (sorted_bucket uid ?E) ks)"
    unfolding build_conversations_def Let_def ks(3)
    by (simp add: comp_def sorted_bucket_def [abs_def])
  with ks(1,2) show ?thesis by blast
qed

subsection \<open>The fields of a bucket\<close>

lemma conversationKey_pair:
  assumes "length (m_item_id m) = length (m_item_id m')"
  shows "conversationKey uid m = conversationKey uid m' \<longleftrightarrow> message_pair uid m = message_pair uid m'"
  using assms by (auto simp: conversationKey_def message_pair_def)

lemma msg_enrich [simp]: "msg (enrich I P m) = m"
  by (simp add: enrich_def)

lemma map_msg_enrich: "map msg (map (enrich I P) ms) = ms"
  by (simp add: comp_def)

lemma filter_enriched:
  "filter (\<lambda>e. Q (msg e)) (map (enrich I P) ms) = map (enrich I P) (filter Q ms)"
  by (simp add: filter_map comp_def)

lemma hd_filter_in:
  assumes "filter Q xs \<noteq> []"
  shows "hd (filter Q xs) \<in> set xs \<and> Q (hd (filter Q xs))"
proof -
  from assms have "hd (filter Q xs) \<in> set (filter Q xs)" by (rule hd_in_set)
  then show ?thesis by simp
qed

lemma nulls_last_le_refl: "nulls_last_le x x"
  by (simp add: nulls_last_le_def split: option.splits)

lemma desc_key_le: "desc_key a \<le> desc_key b \<longleftrightarrow> nulls_last_le (m_created_at b) (m_created_at a)"
  by (cases "m_created_at a"; cases "m_created_at b") (simp_all add: desc_key_def nulls_last_le_def)

lemma desc_hd_last:
  assumes "sorted_wrt (\<lambda>a b. nulls_last_le (f b) (f a)) xs" "x \<in> set xs"
  shows "nulls_last_le (f x) (f (hd xs))"
proof -
  from assms(2) obtain y ys where xs: "xs = y # ys" by (cases xs) auto
  with assms show ?thesis by (auto simp: nulls_last_le_refl)
qed

text \<open>A stable sort keeps the order of the elements with equal keys.\<close>

lemma sorted_wrt_ties:
  assumes "\<And>k. sorted_wrt R (filter (\<lambda>y. f y = k) ys)"
  shows "sorted_wrt (\<lambda>a b. f a = f b \<longrightarrow> R a b) ys"
  using assms
proof (induction ys)
  case Nil
  show ?case by simp
next
  case (Cons y ys)
  have tail: "sorted_wrt R (filter (\<lambda>x. f x = k) ys)" for k
    using Cons.prems [of k] by (cases "f y = k") simp_all
  have first: "R y b" if "b \<in> set ys" "f y = f b" for b
    using Cons.prems [of "f y"] that by simp
  from Cons.IH [OF tail] first show ?case by simp
qed

lemma sort_key_ties:
  assumes "sorted_wrt R xs"
  shows "sorted_wrt (\<lambda>a b. f a = f b \<longrightarrow> R a b) (sort_key f xs)"
proof (rule sorted_wrt_ties)
  fix k
  from assms have "sorted_wrt R (filter (\<lambda>y. f y = k) xs)" by (rule sorted_wrt_filter)
  then show "sorted_wrt R (filter (\<lambda>y. f y = k) (sort_key f xs))" by (simp only: sort_key_stable)
qed

lemma length_filter_sort_key: "length (filter Q (sort_key g xs)) = length (filter Q xs)"
proof -
  have "mset (filter Q (sort_key g xs)) = mset (filter Q xs)" by simp
  then show ?thesis by (metis size_mset)
qed

text \<open>What a sorted bucket holds, for a key that occurs.\<close>

lemma sorted_bucket_fields:
  fixes uid I P ms k
  defines "F \<equiv> filter (\<lambda>m. conversationKey uid m = k) ms"
  assumes k: "k \<in> conversationKey uid ` set ms"
  shows "F \<noteq> []"
    and "hd F \<in> set ms" and "conversationKey uid (hd F) = k"
    and "cv_messages (sorted_bucket uid (map (enrich I P) ms) k)
           = sort_key (\<lambda>e. getTime (m_created_at (msg e))) (map (enrich I P) F)"
    and "conversation_pair (sorted_bucket uid (map (enrich I P) ms) k) = message_pair uid (hd F)"
    and "last_message_date (sorted_bucket uid (map (enrich I P) ms) k) = m_created_at (hd F)"
    and "unread_count (sorted_bucket uid (map (enrich I P) ms) k) = length (filter (unread_by uid) F)"
    and "item_title (sorted_bucket uid (map (enrich I P) ms) k)
           = or_else (map_option i_title (find (\<lambda>i. i_id i = m_item_id (hd F)) I)) ''Unknown Item''"
    and "other_user_username (sorted_bucket uid (map (enrich I P) ms) k)
           = or_else (map_option username (find (\<lambda>p. p_id p = otherUserId uid (hd F)) P)) ''Unknown User''"
proof -
  from k show ne: "F \<noteq> []" by (auto simp: F_def filter_empty_conv)
  from hd_filter_in [of "\<lambda>m. conversationKey uid m = k" ms] ne
  show "hd F \<in> set ms" "conversationKey uid (hd F) = k" by (simp_all add: F_def)
  have EF: "filter (\<lambda>e. conversationKey uid (msg e) = k) (map (enrich I P) ms) = map (enrich I P) F"
    unfolding F_def by (rule filter_enriched [of "\<lambda>m. conversationKey uid m = k"])
  have hdE: "hd (map (enrich I P) F) = enrich I P (hd F)"
    using ne by (simp add: hd_map)
  show "cv_messages (sorted_bucket uid (map (enrich I P) ms) k)
           = sort_key (\<lambda>e. getTime (m_created_at (msg e))) (map (enrich I P) F)"
    by (simp add: sorted_bucket_def bucket_of_def EF Let_def)
  show "conversation_pair (sorted_bucket uid (map (enrich I P) ms) k) = message_pair uid (hd F)"
    by (simp add: sorted_bucket_def bucket_of_def EF hdE Let_def conversation_pair_def
        message_pair_def new_conversation_def)
  show "last_message_date (sorted_bucket uid (map (enrich I P) ms) k) = m_created_at (hd F)"
    by (simp add: sorted_bucket_def bucket_of_def EF hdE Let_def new_conversation_def)
  show "unread_count (sorted_bucket uid (map (enrich I P) ms) k) = length (filter (unread_by uid) F)"
    by (simp add: sorted_bucket_def bucket_of_def EF Let_def filter_map comp_def) (simp add: F_def conj_commute)
  show "item_title (sorted_bucket uid (map (enrich I P) ms) k)
           = or_else (map_option i_title (find (\<lambda>i. i_id i = m_item_id (hd F)) I)) ''Unknown Item''"
    by (simp add: sorted_bucket_def bucket_of_def EF hdE Let_def new_conversation_def enrich_def)
  show "other_user_username (sorted_bucket uid (map (enrich I P) ms) k)
           = or_else (map_option username (find (\<lambda>p. p_id p = otherUserId uid (hd F)) P)) ''Unknown User''"
    by (simp add: sorted_bucket_def bucket_of_def EF hdE Let_def new_conversation_def enrich_def
        otherUserId_def)
qed

lemma pair_determines_key:
  "message_pair uid m = message_pair uid m' \<Longrightarrow> conversationKey uid m = conversationKey uid m'"
  by (simp add: message_pair_def conversationKey_def)

lemma build_conversations_props:
  fixes uid I P ms
  defines "cs \<equiv> build_conversations uid I P ms"
  assumes uu: "\<forall>m \<in> set ms. length (m_item_id m) = 36"
    and desc: "sorted_wrt (\<lambda>a b. nulls_last_le (m_created_at b) (m_created_at a)) ms"
  shows "distinct (map conversation_pair cs)"
    and "set (map conversation_pair cs) = message_pair uid ` set ms"
    and "\<forall>c \<in> set cs. mset (map msg (cv_messages c))
            = mset (filter (\<lambda>m. message_pair uid m = conversation_pair c) ms)"
    and "\<forall>c \<in> set cs. sorted (map (\<lambda>e. getTime (m_created_at (msg e))) (cv_messages c))"
    and "sorted_wrt (\<lambda>a b. getTime (last_message_date b) \<le> getTime (last_message_date a)) cs"
    and "\<forall>c \<in> set cs. cv_messages c \<noteq> []
            \<and> last_message_date c \<in> m_created_at ` msg ` set (cv_messages c)
            \<and> (\<forall>e \<in> set (cv_messages c). nulls_last_le (m_created_at (msg e)) (last_message_date c))"
    and "\<forall>c \<in> set cs. unread_count c = length (filter (\<lambda>e. unread_by uid (msg e)) (cv_messages c))"
    and "\<forall>c \<in> set cs. \<forall>e \<in> set (cv_messages c). e = enrich I P (msg e)"
    and "\<forall>c \<in> set cs.
            item_title c = or_else (map_option i_title (find (\<lambda>i. i_id i = cv_item_id c) I)) ''Unknown Item''
          \<and> other_user_username c
              = or_else (map_option username (find (\<lambda>p. p_id p = other_user_id c) P)) ''Unknown User''"
    and "\<forall>c \<in> set cs.
            sorted_wrt (\<lambda>a b. getTime (m_created_at (msg a)) = getTime (m_created_at (msg b)) \<longrightarrow>
                            nulls_last_le (m_created_at (msg b)) (m_created_at (msg a))) (cv_messages c)"
proof -
  let ?E = "map (enrich I P) ms"
  let ?B = "sorted_bucket uid ?E"
  let ?F = "\<lambda>k. filter (\<lambda>m. conversationKey uid m = k) ms"
  let ?h = "\<lambda>cv. - getTime (last_message_date cv)"
  from build_conversations_structure [of uid I P ms] obtain ks where ks: "distinct ks"
    "set ks = (\<lambda>x. conversationKey uid (msg x)) ` set ?E"
    and cs: "cs = sort_key ?h (map ?B ks)"
    unfolding cs_def by blast
  have keys: "set ks = conversationKey uid ` set ms"
    unfolding ks(2) by (simp add: image_image)
  have set_cs: "set cs = ?B ` set ks" by (simp add: cs)
  have mset_cs: "mset cs = mset (map ?B ks)" by (simp add: cs)
  note fields = sorted_bucket_fields
  have in_ms: "hd (?F k) \<in> set ms" and key_hd: "conversationKey uid (hd (?F k)) = k"
    and pair: "conversation_pair (?B k) = message_pair uid (hd (?F k))" if "k \<in> set ks" for k
    using that fields(2,3,5) [of k] unfolding keys by simp_all
  have same: "(conversationKey uid m = k) = (message_pair uid m = conversation_pair (?B k))"
    if "k \<in> set ks" "m \<in> set ms" for k m
  proof -
    have "length (m_item_id m) = length (m_item_id (hd (?F k)))"
      using uu that in_ms [OF that(1)] by simp
    from conversationKey_pair [OF this, of uid] show ?thesis
      by (simp add: key_hd [OF that(1)] pair [OF that(1)])
  qed
  have F_pair: "?F k = filter (\<lambda>m. message_pair uid m = conversation_pair (?B k)) ms" if "k \<in> set ks" for k
    using same [OF that] by (intro filter_cong) simp_all

  show "distinct (map conversation_pair cs)"
  proof -
    have "inj_on (\<lambda>k. conversation_pair (?B k)) (set ks)"
    proof (rule inj_onI)
      fix k k' assume k: "k \<in> set ks" "k' \<in> set ks"
        and eq: "conversation_pair (?B k) = conversation_pair (?B k')"
      then have "message_pair uid (hd (?F k)) = message_pair uid (hd (?F k'))"
        by (simp add: pair)
      from pair_determines_key [OF this] show "k = k'" by (simp add: key_hd k)
    qed
    with ks(1) have "distinct (map (\<lambda>k. conversation_pair (?B k)) ks)"
      by (simp add: distinct_map)
    then have "distinct (map conversation_pair (map ?B ks))" by (simp add: comp_def)
    moreover have "mset (map conversation_pair cs) = mset (map conversation_pair (map ?B ks))"
      using mset_cs by (metis mset_map)
    ultimately show ?thesis by (metis mset_eq_imp_distinct_iff)
  qed

  show "set (map conversation_pair cs) = message_pair uid ` set ms"
  proof (intro equalityI subsetI)
    fix p assume "p \<in> set (map conversation_pair cs)"
    then obtain k where k: "k \<in> set ks" "p = conversation_pair (?B k)"
      by (auto simp: set_cs)
    with pair [OF k(1)] in_ms [OF k(1)] show "p \<in> message_pair uid ` set ms" by auto
  next
    fix p assume "p \<in> message_pair uid ` set ms"
    then obtain m where m: "m \<in> set ms" "p = message_pair uid m" by auto
    then have k: "conversationKey uid m \<in> set ks" by (simp add: keys)
    from same [OF k m(1)] have "message_pair uid m = conversation_pair (?B (conversationKey uid m))"
      by simp
    with k m(2) show "p \<in> set (map conversation_pair cs)" by (auto simp: set_cs)
  qed

  show "\<forall>c \<in> set cs. mset (map msg (cv_messages c))
            = mset (filter (\<lambda>m. message_pair uid m = conversation_pair c) ms)"
  proof
    fix c assume "c \<in> set cs"
    then obtain k where k: "k \<in> set ks" "c = ?B k" by (auto simp: set_cs)
    then have kk: "k \<in> conversationKey uid ` set ms" by (simp add: keys)
    have "mset (cv_messages c) = mset (map (enrich I P) (?F k))"
      unfolding k(2) fields(4) [OF kk] by (simp only: mset_sort)
    then have "image_mset msg (mset (cv_messages c)) = image_mset msg (mset (map (enrich I P) (?F k)))"
      by (rule arg_cong)
    then have "mset (map msg (cv_messages c)) = mset (map msg (map (enrich I P) (?F k)))"
      by (simp only: mset_map)
    then have "mset (map msg (cv_messages c)) = mset (?F k)"
      by (simp only: map_msg_enrich)
    with F_pair [OF k(1)] k(2)
    show "mset (map msg (cv_messages c)) = mset (filter (\<lambda>m. message_pair uid m = conversation_pair c) ms)"
      by simp
  qed

  show "\<forall>c \<in> set cs. sorted (map (\<lambda>e. getTime (m_created_at (msg e))) (cv_messages c))"
  proof
    fix c assume "c \<in> set cs"
    then obtain k where k: "k \<in> set ks" "c = ?B k" by (auto simp: set_cs)
    then have kk: "k \<in> conversationKey uid ` set ms" by (simp add: keys)
    show "sorted (map (\<lambda>e. getTime (m_created_at (msg e))) (cv_messages c))"
      unfolding k(2) fields(4) [OF kk] by (rule sorted_sort_key)
  qed

  show "sorted_wrt (\<lambda>a b. getTime (last_message_date b) \<le> getTime (last_message_date a)) cs"
  proof -
    have "sorted (map ?h cs)" unfolding cs by (rule sorted_sort_key)
    then have "sorted_wrt (\<lambda>a b. ?h a \<le> ?h b) cs" by (simp add: sorted_map)
    then show ?thesis by simp
  qed

  show "\<forall>c \<in> set cs. cv_messages c \<noteq> []
            \<and> last_message_date c \<in> m_created_at ` msg ` set (cv_messages c)
            \<and> (\<forall>e \<in> set (cv_messages c). nulls_last_le (m_created_at (msg e)) (last_message_date c))"
  proof
    fix c assume "c \<in> set cs"
    then obtain k where k: "k \<in> set ks" "c = ?B k" by (auto simp: set_cs)
    then have kk: "k \<in> conversationKey uid ` set ms" by (simp add: keys)
    have ne: "?F k \<noteq> []" by (rule fields(1) [OF kk])
    have dF: "sorted_wrt (\<lambda>a b. nulls_last_le (m_created_at b) (m_created_at a)) (?F k)"
      using desc by (rule sorted_wrt_filter)
    have msgs: "msg ` set (cv_messages c) = set (?F k)"
      unfolding k(2) fields(4) [OF kk] by (simp add: image_image)
    have last: "last_message_date c = m_created_at (hd (?F k))"
      unfolding k(2) by (rule fields(6) [OF kk])
    have "cv_messages c \<noteq> []"
      unfolding k(2) fields(4) [OF kk] using ne by (metis length_0_conv length_map length_sort)
    moreover have "last_message_date c \<in> m_created_at ` msg ` set (cv_messages c)"
      unfolding msgs last using ne by (intro imageI hd_in_set)
    moreover have "\<forall>e \<in> set (cv_messages c). nulls_last_le (m_created_at (msg e)) (last_message_date c)"
    proof
      fix e assume "e \<in> set (cv_messages c)"
      then have "msg e \<in> set (?F k)" unfolding msgs [symmetric] by (rule imageI)
      from desc_hd_last [OF dF this] show "nulls_last_le (m_created_at (msg e)) (last_message_date c)"
        unfolding last .
    qed
    ultimately show "cv_messages c \<noteq> []
            \<and> last_message_date c \<in> m_created_at ` msg ` set (cv_messages c)
            \<and> (\<forall>e \<in> set (cv_messages c). nulls_last_le (m_created_at (msg e)) (last_message_date c))"
      by blast
  qed

  show "\<forall>c \<in> set cs. unread_count c = length (filter (\<lambda>e. unread_by uid (msg e)) (cv_messages c))"
  proof
    fix c assume "c \<in> set cs"
    then obtain k where k: "k \<in> set ks" "c = ?B k" by (auto simp: set_cs)
    then have kk: "k \<in> conversationKey uid ` set ms" by (simp add: keys)
    show "unread_count c = length (filter (\<lambda>e. unread_by uid (msg e)) (cv_messages c))"
      unfolding k(2) fields(4) [OF kk] fields(7) [OF kk] length_filter_sort_key
      by (simp add: filter_map comp_def)
  qed

  show "\<forall>c \<in> set cs. \<forall>e \<in> set (cv_messages c). e = enrich I P (msg e)"
  proof (intro ballI)
    fix c e assume "c \<in> set cs" and e: "e \<in> set (cv_messages c)"
    then obtain k where k: "k \<in> set ks" "c = ?B k" by (auto simp: set_cs)
    then have kk: "k \<in> conversationKey uid ` set ms" by (simp add: keys)
    from e obtain m where "e = enrich I P m"
      unfolding k(2) fields(4) [OF kk] by auto
    then show "e = enrich I P (msg e)" by simp
  qed

  show "\<forall>c \<in> set cs.
            item_title c = or_else (map_option i_title (find (\<lambda>i. i_id i = cv_item_id c) I)) ''Unknown Item''
          \<and> other_user_username c
              = or_else (map_option username (find (\<lambda>p. p_id p = other_user_id c) P)) ''Unknown User''"
  proof
    fix c assume "c \<in> set cs"
    then obtain k where k: "k \<in> set ks" "c = ?B k" by (auto simp: set_cs)
    then have kk: "k \<in> conversationKey uid ` set ms" by (simp add: keys)
    from pair [OF k(1)] have "cv_item_id c = m_item_id (hd (?F k))"
      "other_user_id c = otherUserId uid (hd (?F k))"
      by (simp_all add: k(2) conversation_pair_def message_pair_def)
    then show "item_title c = or_else (map_option i_title (find (\<lambda>i. i_id i = cv_item_id c) I)) ''Unknown Item''
          \<and> other_user_username c
              = or_else (map_option username (find (\<lambda>p. p_id p = other_user_id c) P)) ''Unknown User''"
      using fields(8,9) [OF kk] by (simp add: k(2))
  qed

  show "\<forall>c \<in> set cs.
            sorted_wrt (\<lambda>a b. getTime (m_created_at (msg a)) = getTime (m_created_at (msg b)) \<longrightarrow>
                            nulls_last_le (m_created_at (msg b)) (m_created_at (msg a))) (cv_messages c)"
  proof
    fix c assume "c \<in> set cs"
    then obtain k where k: "k \<in> set ks" "c = ?B k" by (auto simp: set_cs)
    then have kk: "k \<in> conversationKey uid ` set ms" by (simp add: keys)
    have "sorted_wrt (\<lambda>a b. nulls_last_le (m_created_at b) (m_created_at a)) (?F k)"
      using desc by (rule sorted_wrt_filter)
    then have "sorted_wrt (\<lambda>a b. nulls_last_le (m_created_at (msg b)) (m_created_at (msg a)))
                 (map (enrich I P) (?F k))"
      by (simp add: sorted_wrt_map)
    then show "sorted_wrt (\<lambda>a b. getTime (m_created_at (msg a)) = getTime (m_created_at (msg b)) \<longrightarrow>
                            nulls_last_le (m_created_at (msg b)) (m_created_at (msg a))) (cv_messages c)"
      unfolding k(2) fields(4) [OF kk] by (rule sort_key_ties)
  qed
qed

lemma find_filter_key:
  "x \<in> S \<Longrightarrow> find (\<lambda>i. f i = x) (filter (\<lambda>i. f i \<in> S) xs) = find (\<lambda>i. f i = x) xs"
  by (induction xs) auto

lemma enrich_filtered:
  assumes "m_item_id m \<in> S" "m_sender_id m \<in> U" "m_recipient_id m \<in> U"
  shows "enrich (filter (\<lambda>i. i_id i \<in> S) I) (filter (\<lambda>p. p_id p \<in> U) P) m = enrich I P m"
  using assms by (simp add: enrich_def find_filter_key)

lemma callers_messages:
  "filter (\<lambda>m. m_sender_id m = uid \<or> m_recipient_id m = uid) (select_messages d (signed_in uid))
   = filter (involves uid) (messages d)"
  unfolding select_messages_def filter_filter
  by (intro filter_cong refl)
     (auto simp: users_can_view_messages_they_sent_or_received_def signed_in_def involves_def)

lemma build_conversations_Nil: "build_conversations uid I P [] = []"
  by (simp add: build_conversations_def)

lemma fetchConversations_build:
  fixes d uid
  defines "ms \<equiv> sort_key desc_key (filter (involves uid) (messages d))"
  shows "fetchConversations d uid =
     build_conversations uid
       (filter (\<lambda>i. i_id i \<in> set (map m_item_id ms)) (select_items d (signed_in uid)))
       (filter (\<lambda>p. p_id p \<in> set (map m_sender_id ms @ map m_recipient_id ms)) (profiles d))
       ms"
proof (cases "ms = []")
  case True
  then show ?thesis
    unfolding fetchConversations_def callers_messages ms_def [symmetric]
    by (simp add: build_conversations_Nil)
next
  case False
  then show ?thesis
    unfolding fetchConversations_def callers_messages ms_def [symmetric] Let_def
    by (simp add: select_profiles_def users_can_view_all_profiles_def)
qed

subsection \<open>What \<open>fetchConversations\<close> returns\<close>

text \<open>
  C8 (as amended). With item ids in the 36-character text form of a UUID,
  \<open>fetchConversations\<close> for a caller returns buckets such that: no two buckets have the same
  (item, other party) pair, and the pairs are exactly those of the messages whose sender or
  recipient is the caller; a bucket holds exactly those messages of the caller that have
  its pair, each joined client-side with the item row the caller can read and the two
  profiles. The bucket is in ascending order of the creation time in milliseconds, as
  \<open>getTime\<close> reads it (a NULL as 0); messages of the same millisecond are in the order of
  the fetch, later creation time first and a NULL before every time. Its
  \<open>last_message_date\<close> is the creation time of its first fetched message: of one of its
  messages, and no message of the bucket comes after it in the order of the database.
  Its unread count is the number of its messages addressed to the caller whose \<open>read\<close> is
  not true (false or NULL); its title and user name come from the joined rows, with the
  "Unknown" defaults; and the bucket list is in descending order of the milliseconds of
  \<open>last_message_date\<close>.
\<close>

theorem fetchConversations_groups_and_sorts:
  assumes "\<forall>m \<in> set (messages d). length (m_item_id m) = 36"
  shows "distinct (map conversation_pair (fetchConversations d uid))
    \<and> set (map conversation_pair (fetchConversations d uid))
        = message_pair uid ` {m \<in> set (messages d). involves uid m}
    \<and> (\<forall>c \<in> set (fetchConversations d uid).
          mset (map msg (cv_messages c))
            = mset (filter (\<lambda>m. involves uid m \<and> message_pair uid m = conversation_pair c) (messages d))
        \<and> sorted (map (\<lambda>e. getTime (m_created_at (msg e))) (cv_messages c))
        \<and> sorted_wrt (\<lambda>a b. getTime (m_created_at (msg a)) = getTime (m_created_at (msg b)) \<longrightarrow>
                            nulls_last_le (m_created_at (msg b)) (m_created_at (msg a))) (cv_messages c)
        \<and> cv_messages c \<noteq> []
        \<and> last_message_date c \<in> m_created_at ` msg ` set (cv_messages c)
        \<and> (\<forall>e \<in> set (cv_messages c). nulls_last_le (m_created_at (msg e)) (last_message_date c))
        \<and> unread_count c = length (filter (\<lambda>e. unread_by uid (msg e)) (cv_messages c))
        \<and> (\<forall>e \<in> set (cv_messages c). e = enrich (select_items d (signed_in uid)) (profiles d) (msg e))
        \<and> item_title c
            = or_else (map_option i_title (find (\<lambda>i. i_id i = cv_item_id c) (select_items d (signed_in uid))))
                ''Unknown Item''
        \<and> other_user_username c
            = or_else (map_option username (find (\<lambda>p. p_id p = other_user_id c) (profiles d)))
                ''Unknown User'')
    \<and> sorted_wrt (\<lambda>a b. getTime (last_message_date b) \<le> getTime (last_message_date a))
        (fetchConversations d uid)"
proof -
  define ms where "ms = sort_key desc_key (filter (involves uid) (messages d))"
  define S where "S = set (map m_item_id ms)"
  define U where "U = set (map m_sender_id ms @ map m_recipient_id ms)"
  define I where "I = filter (\<lambda>i. i_id i \<in> S) (select_items d (signed_in uid))"
  define P where "P = filter (\<lambda>p. p_id p \<in> U) (profiles d)"
  let ?cs = "fetchConversations d uid"
  have cs: "?cs = build_conversations uid I P ms"
    unfolding I_def P_def S_def U_def ms_def by (rule fetchConversations_build)
  have set_ms: "set ms = {m \<in> set (messages d). involves uid m}"
    by (auto simp: ms_def)
  have mset_ms: "mset ms = mset (filter (involves uid) (messages d))"
    by (simp add: ms_def)
  have uu: "\<forall>m \<in> set ms. length (m_item_id m) = 36"
    using assms by (simp add: set_ms)
  have "sorted (map desc_key ms)"
    unfolding ms_def by (rule sorted_sort_key)
  then have "sorted_wrt (\<lambda>a b. desc_key a \<le> desc_key b) ms"
    by (simp add: sorted_map)
  then have desc: "sorted_wrt (\<lambda>a b. nulls_last_le (m_created_at b) (m_created_at a)) ms"
    by (simp only: desc_key_le)
  note props = build_conversations_props [OF uu desc, of uid I P, folded cs]
  have in_ms: "msg e \<in> set ms" if "c \<in> set ?cs" "e \<in> set (cv_messages c)" for c e
  proof -
    from that have "msg e \<in># mset (map msg (cv_messages c))" by simp
    with props(3) that(1) show ?thesis by auto
  qed
  have pair_ms: "\<exists>m \<in> set ms. conversation_pair c = message_pair uid m" if "c \<in> set ?cs" for c
  proof -
    from that have "conversation_pair c \<in> set (map conversation_pair ?cs)" by simp
    then show ?thesis unfolding props(2) by auto
  qed
  have per: "mset (map msg (cv_messages c))
            = mset (filter (\<lambda>m. involves uid m \<and> message_pair uid m = conversation_pair c) (messages d))
        \<and> sorted (map (\<lambda>e. getTime (m_created_at (msg e))) (cv_messages c))
        \<and> sorted_wrt (\<lambda>a b. getTime (m_created_at (msg a)) = getTime (m_created_at (msg b)) \<longrightarrow>
                            nulls_last_le (m_created_at (msg b)) (m_created_at (msg a))) (cv_messages c)
        \<and> cv_messages c \<noteq> []
        \<and> last_message_date c \<in> m_created_at ` msg ` set (cv_messages c)
        \<and> (\<forall>e \<in> set (cv_messages c). nulls_last_le (m_created_at (msg e)) (last_message_date c))
        \<and> unread_count c = length (filter (\<lambda>e. unread_by uid (msg e)) (cv_messages c))
        \<and> (\<forall>e \<in> set (cv_messages c). e = enrich (select_items d (signed_in uid)) (profiles d) (msg e))
        \<and> item_title c
            = or_else (map_option i_title (find (\<lambda>i. i_id i = cv_item_id c) (select_items d (signed_in uid))))
                ''Unknown Item''
        \<and> other_user_username c
            = or_else (map_option username (find (\<lambda>p. p_id p = other_user_id c) (profiles d)))
                ''Unknown User''" if c: "c \<in> set ?cs" for c
  proof (intro conjI)
    have "mset (filter (\<lambda>m. message_pair uid m = conversation_pair c) ms)
          = filter_mset (\<lambda>m. message_pair uid m = conversation_pair c) (mset (filter (involves uid) (messages d)))"
      by (simp only: mset_filter mset_ms)
    also have "\<dots> = mset (filter (\<lambda>m. involves uid m \<and> message_pair uid m = conversation_pair c) (messages d))"
      by (simp add: filter_filter_mset)
    finally show "mset (map msg (cv_messages c))
            = mset (filter (\<lambda>m. involves uid m \<and> message_pair uid m = conversation_pair c) (messages d))"
      using props(3) c by simp
    show "sorted (map (\<lambda>e. getTime (m_created_at (msg e))) (cv_messages c))"
      using props(4) c by simp
    show "sorted_wrt (\<lambda>a b. getTime (m_created_at (msg a)) = getTime (m_created_at (msg b)) \<longrightarrow>
                            nulls_last_le (m_created_at (msg b)) (m_created_at (msg a))) (cv_messages c)"
      using props(10) c by simp
    show "cv_messages c \<noteq> []" "last_message_date c \<in> m_created_at ` msg ` set (cv_messages c)"
      "\<forall>e \<in> set (cv_messages c). nulls_last_le (m_created_at (msg e)) (last_message_date c)"
      using props(6) c by simp_all
    show "unread_count c = length (filter (\<lambda>e. unread_by uid (msg e)) (cv_messages c))"
      using props(7) c by simp
    show "\<forall>e \<in> set (cv_messages c). e = enrich (select_items d (signed_in uid)) (profiles d) (msg e)"
    proof
      fix e assume e: "e \<in> set (cv_messages c)"
      with props(8) c have "e = enrich I P (msg e)" by simp
      moreover from in_ms [OF c e] have "m_item_id (msg e) \<in> S" "m_sender_id (msg e) \<in> U"
        "m_recipient_id (msg e) \<in> U"
        by (simp_all add: S_def U_def)
      ultimately show "e = enrich (select_items d (signed_in uid)) (profiles d) (msg e)"
        unfolding I_def P_def by (simp add: enrich_filtered)
    qed
    from pair_ms [OF c] obtain m where m: "m \<in> set ms" "conversation_pair c = message_pair uid m"
      by blast
    then have ids: "cv_item_id c \<in> S" "other_user_id c \<in> U"
      by (auto simp: conversation_pair_def message_pair_def S_def U_def otherUserId_def)
    show "item_title c
            = or_else (map_option i_title (find (\<lambda>i. i_id i = cv_item_id c) (select_items d (signed_in uid))))
                ''Unknown Item''"
      using props(9) c ids(1) unfolding I_def by (simp add: find_filter_key)
    show "other_user_username c
            = or_else (map_option username (find (\<lambda>p. p_id p = other_user_id c) (profiles d)))
                ''Unknown User''"
      using props(9) c ids(2) unfolding P_def by (simp add: find_filter_key)
  qed
  from props(1) props(2) per props(5) show ?thesis
    unfolding set_ms by blast
qed

lemma example_conversations:
  "map conversation_pair (fetchConversations example_db alice) = [(backpack_id, bob), (umbrella_id, carol)]
   \<and> map (\<lambda>c. map (\<lambda>e. m_message (msg e)) (cv_messages c)) (fetchConversations example_db alice)
       = [[''Is it blue?'', ''Yes'', ''Then it is mine''], [''Please collect it'']]
   \<and> map last_message_date (fetchConversations example_db alice) = [Some 3000, Some 2500]
   \<and> map unread_count (fetchConversations example_db alice) = [1, 1]
   \<and> map item_title (fetchConversations example_db alice) = [''Blue Backpack'', ''Unknown Item'']
   \<and> map other_user_username (fetchConversations example_db alice) = [''bob'', ''carol'']"
  by code_simp

lemma example_uuids: "\<forall>m \<in> set (messages example_db). length (m_item_id m) = 36"
  by (simp add: example_db_def msg1_def msg2_def msg3_def msg4_def backpack_id_def umbrella_id_def)

text \<open>
  C8, witness: Alice's conversations in the example state: with Bob about the backpack
  (three messages, one unread) and, after it, with Carol about the umbrella, which Alice
  cannot read since it is claimed, so its title is unknown.
\<close>

theorem fetchConversations_example:
  "map conversation_pair (fetchConversations example_db alice) = [(backpack_id, bob), (umbrella_id, carol)]
   \<and> map (\<lambda>c. map (\<lambda>e. m_message (msg e)) (cv_messages c)) (fetchConversations example_db alice)
       = [[''Is it blue?'', ''Yes'', ''Then it is mine''], [''Please collect it'']]
   \<and> map last_message_date (fetchConversations example_db alice) = [Some 3000, Some 2500]
   \<and> map unread_count (fetchConversations example_db alice) = [1, 1]
   \<and> map item_title (fetchConversations example_db alice) = [''Blue Backpack'', ''Unknown Item'']
   \<and> map other_user_username (fetchConversations example_db alice) = [''bob'', ''carol'']
   \<and> distinct (map conversation_pair (fetchConversations example_db alice))
   \<and> sorted_wrt (\<lambda>a b. getTime (last_message_date b) \<le> getTime (last_message_date a))
        (fetchConversations example_db alice)"
  using fetchConversations_groups_and_sorts [OF example_uuids, of alice] example_conversations
  by blast

text \<open>
  C8, as the claim states it, fails in three ways, all in the state \<open>tie_db\<close>. Bob's two
  messages were written in the same millisecond, so the sort by \<open>getTime\<close> leaves them as
  fetched, the later one first: the bucket is not in ascending order of creation time. The
  later one has a NULL \<open>read\<close>, which \<open>!message.read\<close> counts as unread: the unread count is
  1 where no message has \<open>read = false\<close>. And Carol's bucket has a message with a NULL
  \<open>created_at\<close>, which the fetch puts first and \<open>getTime\<close> reads as 0: the bucket comes
  last in the list although its most recent message is the newest of all.
\<close>

theorem same_millisecond_and_null:
  "map conversation_pair (fetchConversations tie_db alice) = [(backpack_id, bob), (umbrella_id, carol)]
   \<and> map (\<lambda>c. map (\<lambda>e. m_created_at (msg e)) (cv_messages c)) (fetchConversations tie_db alice)
       = [[Some 5000900, Some 5000100], [None, Some 9000000]]
   \<and> \<not> spec_ascending (hd (fetchConversations tie_db alice))
   \<and> map unread_count (fetchConversations tie_db alice) = [1, 0]
   \<and> map (spec_unread_count alice) (fetchConversations tie_db alice) = [0, 0]
   \<and> map spec_most_recent (fetchConversations tie_db alice) = [5000, 9000]
   \<and> map last_message_date (fetchConversations tie_db alice) = [Some 5000900, None]"
  by code_simp

end
